theory Spec2Isabelle
  imports Main
begin

section \<open>Characters and strings\<close>

text \<open>
  A QString is a sequence of QChar code units. It is modelled as a \<open>string\<close> whose
  elements are the QChars with a code below 256 (Latin-1), one list element per QChar,
  so that \<open>length\<close> is \<open>QString::length()\<close>. \<open>QChar()\<close> is the character with code 0.
\<close>

definition nullChar :: char where
  "nullChar = CHR 0x00"

definition newline :: char where
  "newline = CHR 0x0A"

definition isSpace :: "char \<Rightarrow> bool" where
  \<comment> \<open>\<open>QChar::isSpace()\<close>, which is also the class \<open>\\s\<close> of QRegExp: tab, line feed,
      vertical tab, form feed, carriage return, space, and in Latin-1 U+0085 and U+00A0.\<close>
  "isSpace c \<longleftrightarrow>
     c = CHR 0x09 \<or> c = CHR 0x0A \<or> c = CHR 0x0B \<or> c = CHR 0x0C \<or> c = CHR 0x0D \<or>
     c = CHR '' '' \<or> c = CHR 0x85 \<or> c = CHR 0xA0"

definition isDigit :: "char \<Rightarrow> bool" where
  \<comment> \<open>The class \<open>[0-9]\<close>; in Latin-1 it is also \<open>\\d\<close> (\<open>QChar::isDigit()\<close>).\<close>
  "isDigit c \<longleftrightarrow> c \<in> set ''0123456789''"

definition isBulletChar :: "char \<Rightarrow> bool" where
  \<comment> \<open>The class \<open>[+*-]\<close>.\<close>
  "isBulletChar c \<longleftrightarrow> c = CHR ''+'' \<or> c = CHR ''*'' \<or> c = CHR ''-''"

definition qcharAt :: "string \<Rightarrow> nat \<Rightarrow> char" where
  \<comment> \<open>\<open>QChar c = s[i]\<close> on a non-const QString: the read goes through QCharRef, which
      yields \<open>QChar()\<close> when \<open>i\<close> is not below the size of the string.\<close>
  "qcharAt t i = (if i < length t then t ! i else nullChar)"

definition inBounds :: "string \<Rightarrow> nat \<Rightarrow> bool" where
  "inBounds t i \<longleftrightarrow> i < length t"

fun indexOf :: "(char \<Rightarrow> bool) \<Rightarrow> string \<Rightarrow> int" where
  \<comment> \<open>\<open>QString::indexOf\<close> for a one-character pattern: the first index, or \<open>-1\<close>.\<close>
  "indexOf P [] = -1"
| "indexOf P (c # cs) = (if P c then 0 else (let r = indexOf P cs in if r < 0 then -1 else r + 1))"

definition lastIndexOf :: "char \<Rightarrow> string \<Rightarrow> int" where
  \<comment> \<open>\<open>QString::lastIndexOf(QChar)\<close>: the last index, or \<open>-1\<close>.\<close>
  "lastIndexOf x t =
     (let r = indexOf (\<lambda>c. c = x) (rev t) in if r < 0 then -1 else int (length t) - 1 - r)"

definition trimmed :: "string \<Rightarrow> string" where
  "trimmed t = rev (dropWhile isSpace (rev (dropWhile isSpace t)))"

definition replaceChar :: "char \<Rightarrow> char \<Rightarrow> string \<Rightarrow> string" where
  \<comment> \<open>\<open>QString::replace(QChar before, QChar after)\<close>: every occurrence.\<close>
  "replaceChar old new t = map (\<lambda>c. if c = old then new else c) t"

function replaceDigitRuns :: "string \<Rightarrow> string \<Rightarrow> string" where
  \<comment> \<open>\<open>QString::replace(QRegExp("\\d+"), after)\<close>: every maximal run of digits.\<close>
  "replaceDigitRuns after [] = []"
| "replaceDigitRuns after (c # cs) =
     (if isDigit c then after @ replaceDigitRuns after (dropWhile isDigit cs)
      else c # replaceDigitRuns after cs)"
  by pat_completeness auto
termination
  by (relation "measure (\<lambda>(a, t). length t)") (auto simp: length_dropWhile_le less_Suc_eq_le)

subsection \<open>Numbers in list markers\<close>

definition digitValue :: "char \<Rightarrow> int" where
  "digitValue c = of_char c - 48"

definition digitsValue :: "string \<Rightarrow> int" where
  \<comment> \<open>The number that a string of digits writes.\<close>
  "digitsValue ds = foldl (\<lambda>n c. 10 * n + digitValue c) 0 ds"

definition toInt :: "string \<Rightarrow> int" where
  \<comment> \<open>\<open>QString::toInt()\<close> on a non-empty string of digits: the value when it fits an
      \<open>int\<close> of 32 bits, and 0 when the conversion fails.\<close>
  "toInt ds = (if digitsValue ds \<le> 2147483647 then digitsValue ds else 0)"

definition increment :: "int \<Rightarrow> int" where
  \<comment> \<open>\<open>number++\<close> on a 32-bit \<open>int\<close>, with the wrap-around written out.\<close>
  "increment n = (if n = 2147483647 then - 2147483648 else n + 1)"

definition digitChar :: "int \<Rightarrow> char" where
  "digitChar d = ''0123456789'' ! nat (d mod 10)"

function decimal :: "int \<Rightarrow> string" where
  \<comment> \<open>The digits of a number that is not negative.\<close>
  "decimal n = (if n < 10 then [digitChar n] else decimal (n div 10) @ [digitChar (n mod 10)])"
  by pat_completeness auto
termination
  by (relation "measure nat") auto

declare decimal.simps [simp del]

definition arg :: "int \<Rightarrow> string" where
  \<comment> \<open>\<open>QString("%1").arg(number)\<close>: the decimal representation.\<close>
  "arg n = (if n < 0 then CHR ''-'' # decimal (- n) else decimal n)"

subsection \<open>The four patterns\<close>

text \<open>
  Each pattern is anchored with \<open>^\<close> and has at most one capture group. A pattern is modelled by
  its anchored matcher: \<open>None\<close> when the text has no match, else the length of the match
  (the quantifiers are greedy, and each pattern has at most one match of greatest length
  at index 0) together with the text of capture group 1.
\<close>

type_synonym QRegExp = "string \<Rightarrow> (nat \<times> string) option"

definition blockquoteRegex :: QRegExp where
  \<comment> \<open>\<open>^ {0,3}(>\\s*)+\<close>\<close>
  "blockquoteRegex t =
     (let sp = takeWhile (\<lambda>c. c = CHR '' '') t;
          r = dropWhile (\<lambda>c. c = CHR '' '') t
      in case r of
           [] \<Rightarrow> None
         | g # r' \<Rightarrow>
             if length sp \<le> 3 \<and> g = CHR ''>''
             then (let body = g # takeWhile (\<lambda>c. c = CHR ''>'' \<or> isSpace c) r'
                   in Some (length sp + length body,
                            drop (nat (lastIndexOf (CHR ''>'') body)) body))
             else None)"

definition numberedListRegex :: QRegExp where
  \<comment> \<open>\<open>^\\s*([0-9]+)[.)]\\s+\<close>\<close>
  "numberedListRegex t =
     (let ws = takeWhile isSpace t;
          ds = takeWhile isDigit (dropWhile isSpace t)
      in case dropWhile isDigit (dropWhile isSpace t) of
           [] \<Rightarrow> None
         | p # r \<Rightarrow>
             if ds \<noteq> [] \<and> (p = CHR ''.'' \<or> p = CHR '')'') \<and> takeWhile isSpace r \<noteq> []
             then Some (length ws + length ds + 1 + length (takeWhile isSpace r), ds)
             else None)"

definition bulletListRegex :: QRegExp where
  \<comment> \<open>\<open>^\\s*[+*-]\\s+\<close>; it has no capture group, the second component is empty.\<close>
  "bulletListRegex t =
     (let ws = takeWhile isSpace t
      in case dropWhile isSpace t of
           [] \<Rightarrow> None
         | m # r \<Rightarrow>
             if isBulletChar m \<and> takeWhile isSpace r \<noteq> []
             then Some (length ws + 1 + length (takeWhile isSpace r), [])
             else None)"

definition taskListRegex :: QRegExp where
  \<comment> \<open>\<open>^\\s*[-] \\[([x ])\\]\\s+\<close>\<close>
  "taskListRegex t =
     (let ws = takeWhile isSpace t
      in case dropWhile isSpace t of
           m # s # l # v # u # r \<Rightarrow>
             if m = CHR ''-'' \<and> s = CHR '' '' \<and> l = CHR ''[''
                \<and> (v = CHR ''x'' \<or> v = CHR '' '') \<and> u = CHR '']''
                \<and> takeWhile isSpace r \<noteq> []
             then Some (length ws + 5 + length (takeWhile isSpace r), [v])
             else None
         | _ \<Rightarrow> None)"

definition exactMatch :: "QRegExp \<Rightarrow> string \<Rightarrow> bool" where
  \<comment> \<open>\<open>QRegExp::exactMatch\<close>: the whole text is a match.\<close>
  "exactMatch rx t = (case rx t of None \<Rightarrow> False | Some (n, c) \<Rightarrow> n = length t)"

definition capturedTexts :: "QRegExp \<Rightarrow> string \<Rightarrow> string list" where
  \<comment> \<open>\<open>QRegExp::capturedTexts()\<close> after a search in \<open>t\<close>: the match, then group 1;
      both empty after a failed search.\<close>
  "capturedTexts rx t = (case rx t of None \<Rightarrow> ['''', ''''] | Some (n, c) \<Rightarrow> [take n t, c])"

section \<open>The document and its cursors\<close>

text \<open>
  The block state is the value the highlighter stored with \<open>setUserState\<close>. The header
  that numbers the states is not among the sources; the editor compares the state with
  three of its names only, and \<open>MarkdownStateOther\<close> stands for every other value
  (also the state \<open>-1\<close> of a block that has not been highlighted yet).
\<close>

datatype MarkdownState =
    MarkdownStateNumberedList
  | MarkdownStateBulletPointList
  | MarkdownStateBlockquote
  | MarkdownStateOther

record QTextBlock =
  blockText :: string
  userState :: MarkdownState

record QTextCursor =
  anchor :: nat
  position :: nat

definition blockLength :: "QTextBlock \<Rightarrow> nat" where
  \<comment> \<open>\<open>QTextBlock::length()\<close>: the text and the block separator.\<close>
  "blockLength b = Suc (length (blockText b))"

definition characterCount :: "QTextBlock list \<Rightarrow> nat" where
  \<comment> \<open>\<open>QTextDocument::characterCount()\<close>: every text with its separator.\<close>
  "characterCount bs = sum_list (map blockLength bs)"

definition blockPosition :: "QTextBlock list \<Rightarrow> nat \<Rightarrow> nat" where
  \<comment> \<open>\<open>QTextBlock::position()\<close> of the block with number \<open>i\<close>.\<close>
  "blockPosition bs i = characterCount (take i bs)"

fun findBlock :: "QTextBlock list \<Rightarrow> nat \<Rightarrow> nat" where
  \<comment> \<open>\<open>QTextDocument::findBlock(pos)\<close>, as a block number; a position past the end is
      taken to the last block.\<close>
  "findBlock [] p = 0"
| "findBlock [b] p = 0"
| "findBlock (b # b' # bs) p =
     (if p < blockLength b then 0 else Suc (findBlock (b' # bs) (p - blockLength b)))"

definition lastPosition :: "QTextBlock list \<Rightarrow> nat" where
  \<comment> \<open>The last cursor position: \<open>characterCount() - 1\<close>.\<close>
  "lastPosition bs = characterCount bs - 1"

definition hasSelection :: "QTextCursor \<Rightarrow> bool" where
  "hasSelection c \<longleftrightarrow> anchor c \<noteq> position c"

definition selectionStart :: "QTextCursor \<Rightarrow> nat" where
  "selectionStart c = min (anchor c) (position c)"

definition selectionEnd :: "QTextCursor \<Rightarrow> nat" where
  "selectionEnd c = max (anchor c) (position c)"

definition blockNumber :: "QTextBlock list \<Rightarrow> QTextCursor \<Rightarrow> nat" where
  "blockNumber bs c = findBlock bs (position c)"

definition block :: "QTextBlock list \<Rightarrow> QTextCursor \<Rightarrow> QTextBlock" where
  \<comment> \<open>\<open>QTextCursor::block()\<close>: the block of the cursor's position.\<close>
  "block bs c = bs ! blockNumber bs c"

definition positionInBlock :: "QTextBlock list \<Rightarrow> QTextCursor \<Rightarrow> nat" where
  "positionInBlock bs c = position c - blockPosition bs (blockNumber bs c)"

definition selectedText :: "QTextBlock list \<Rightarrow> QTextCursor \<Rightarrow> string" where
  \<comment> \<open>\<open>QTextCursor::selectedText()\<close> for a selection inside one block (the editor asks
      for it only after selecting from the start to the end of a block).\<close>
  "selectedText bs c =
     (let i = findBlock bs (selectionStart c);
          k = selectionStart c - blockPosition bs i
      in take (selectionEnd c - selectionStart c) (drop k (blockText (bs ! i))))"

datatype MoveMode = MoveAnchor | KeepAnchor

datatype MoveOperation =
  StartOfBlock | EndOfBlock | Left | Right | PreviousCharacter | NextCharacter

definition setPosition :: "nat \<Rightarrow> MoveMode \<Rightarrow> QTextCursor \<Rightarrow> QTextCursor" where
  "setPosition p m c =
     (case m of MoveAnchor \<Rightarrow> \<lparr>anchor = p, position = p\<rparr> | KeepAnchor \<Rightarrow> c\<lparr>position := p\<rparr>)"

definition moveTarget :: "QTextBlock list \<Rightarrow> MoveOperation \<Rightarrow> nat \<Rightarrow> nat" where
  \<comment> \<open>Where one step of \<open>QTextCursor::movePosition\<close> takes the position; a step that
      cannot be made leaves it where it is.\<close>
  "moveTarget bs operation p =
     (case operation of
        StartOfBlock \<Rightarrow> blockPosition bs (findBlock bs p)
      | EndOfBlock \<Rightarrow> blockPosition bs (findBlock bs p) + length (blockText (bs ! findBlock bs p))
      | Left \<Rightarrow> p - 1
      | PreviousCharacter \<Rightarrow> p - 1
      | Right \<Rightarrow> (if p < lastPosition bs then p + 1 else p)
      | NextCharacter \<Rightarrow> (if p < lastPosition bs then p + 1 else p))"

definition movePosition ::
  "QTextBlock list \<Rightarrow> MoveOperation \<Rightarrow> MoveMode \<Rightarrow> nat \<Rightarrow> QTextCursor \<Rightarrow> QTextCursor" where
  \<comment> \<open>\<open>QTextCursor::movePosition(op, mode, n)\<close>\<close>
  "movePosition bs operation m n c =
     setPosition (((moveTarget bs operation) ^^ n) (position c)) m c"

subsection \<open>Editing the block list\<close>

fun splitLines :: "string \<Rightarrow> string list" where
  \<comment> \<open>The pieces of a text between its line feeds.\<close>
  "splitLines [] = [[]]"
| "splitLines (c # cs) =
     (if c = newline then [] # splitLines cs
      else (case splitLines cs of l # ls \<Rightarrow> (c # l) # ls | [] \<Rightarrow> [[c]]))"

definition newBlock :: "string \<Rightarrow> QTextBlock" where
  \<comment> \<open>A block made by an insertion; the highlighter has not seen it yet.\<close>
  "newBlock t = \<lparr>blockText = t, userState = MarkdownStateOther\<rparr>"

definition insertAt :: "QTextBlock list \<Rightarrow> nat \<Rightarrow> string \<Rightarrow> QTextBlock list" where
  \<comment> \<open>Inserting a text at a position; each line feed in it starts a new block. The
      block that is split keeps its state for the part before the insertion.\<close>
  "insertAt bs p str =
     (let i = findBlock bs p;
          k = p - blockPosition bs i;
          b = bs ! i;
          t = blockText b
      in take i bs @
         (case splitLines str of
            [] \<Rightarrow> [b]
          | [l] \<Rightarrow> [b\<lparr>blockText := take k t @ l @ drop k t\<rparr>]
          | l # l' # ls \<Rightarrow>
              b\<lparr>blockText := take k t @ l\<rparr> #
              map newBlock (butlast (l' # ls)) @ [newBlock (last (l' # ls) @ drop k t)])
         @ drop (Suc i) bs)"

definition removeRange :: "QTextBlock list \<Rightarrow> nat \<Rightarrow> nat \<Rightarrow> QTextBlock list" where
  \<comment> \<open>Removing the characters from position \<open>p\<close> up to position \<open>q\<close>; the blocks in
      between are merged into the block of \<open>p\<close>.\<close>
  "removeRange bs p q =
     (let i = findBlock bs p; k = p - blockPosition bs i;
          j = findBlock bs q; m = q - blockPosition bs j
      in take i bs @
         [(bs ! i)\<lparr>blockText := take k (blockText (bs ! i)) @ drop m (blockText (bs ! j))\<rparr>]
         @ drop (Suc j) bs)"

definition adjustInsert :: "nat \<Rightarrow> nat \<Rightarrow> nat \<Rightarrow> nat" where
  \<comment> \<open>How the document moves a cursor position \<open>x\<close> when \<open>n\<close> characters are inserted
      at \<open>p\<close>: a position at or after the insertion moves with the text.\<close>
  "adjustInsert p n x = (if x < p then x else x + n)"

definition adjustRemove :: "nat \<Rightarrow> nat \<Rightarrow> nat \<Rightarrow> nat" where
  \<comment> \<open>How the document moves a cursor position \<open>x\<close> when \<open>n\<close> characters are removed
      at \<open>p\<close>: a position inside the removed range falls to its start.\<close>
  "adjustRemove p n x = (if x < p then x else if x < p + n then p else x - n)"

definition adjustCursor :: "(nat \<Rightarrow> nat) \<Rightarrow> QTextCursor \<Rightarrow> QTextCursor" where
  "adjustCursor f c = \<lparr>anchor = f (anchor c), position = f (position c)\<rparr>"

subsection \<open>Hash tables\<close>

text \<open>
  The two tables of the editor are Qt hash tables. A table is modelled as an association
  list with distinct keys; the order of the list stands for the iteration order of the
  table, which Qt leaves open.
\<close>

definition hashContains :: "('k \<times> 'v) list \<Rightarrow> 'k \<Rightarrow> bool" where
  "hashContains h k \<longleftrightarrow> map_of h k \<noteq> None"

definition hashValue :: "('k \<times> 'v) list \<Rightarrow> 'v \<Rightarrow> 'k \<Rightarrow> 'v" where
  \<comment> \<open>\<open>value(k)\<close>: the value of the key, or the default-constructed value \<open>d\<close>.\<close>
  "hashValue h d k = (case map_of h k of Some v \<Rightarrow> v | None \<Rightarrow> d)"

definition hashInsert :: "('k \<times> 'v) list \<Rightarrow> 'k \<Rightarrow> 'v \<Rightarrow> ('k \<times> 'v) list" where
  \<comment> \<open>\<open>insert(k, v)\<close>: replaces the value of a key that is there.\<close>
  "hashInsert h k v =
     (if hashContains h k then map (\<lambda>e. if fst e = k then (k, v) else e) h else h @ [(k, v)])"

definition hashSubscript :: "('k \<times> 'v) list \<Rightarrow> 'v \<Rightarrow> 'k \<Rightarrow> ('k \<times> 'v) list" where
  \<comment> \<open>The table after \<open>operator[](k)\<close> on a table that is not const: a key that is
      missing is inserted with the default-constructed value \<open>d\<close>.\<close>
  "hashSubscript h d k = (if hashContains h k then h else h @ [(k, d)])"

definition hashValues :: "('k \<times> 'v) list \<Rightarrow> 'v list" where
  "hashValues h = map snd h"

definition hashKey :: "('k \<times> 'v) list \<Rightarrow> 'k \<Rightarrow> 'v \<Rightarrow> 'k" where
  \<comment> \<open>\<open>key(v)\<close>: the first key with that value, or the default-constructed key \<open>d\<close>.\<close>
  "hashKey h d v = (case find (\<lambda>e. snd e = v) h of Some e \<Rightarrow> fst e | None \<Rightarrow> d)"

section \<open>The editor\<close>

record MarkdownEditor =
  document :: "QTextBlock list"
  textCursor :: QTextCursor
  autoMatchEnabled :: bool
  bulletPointCyclingEnabled :: bool
  hemingwayModeEnabled :: bool
  insertSpacesForTabs :: bool
  tabWidth :: int
  markupPairs :: "(char \<times> char) list"
  autoMatchFilter :: "(char \<times> bool) list"

definition initialMarkupPairs :: "(char \<times> char) list" where
  "initialMarkupPairs =
     [(CHR 0x22, CHR 0x22), (CHR 0x27, CHR 0x27), (CHR ''('', CHR '')''),
      (CHR ''['', CHR '']''), (CHR ''{'', CHR ''}''), (CHR ''*'', CHR ''*''),
      (CHR ''_'', CHR ''_''), (CHR 0x60, CHR 0x60), (CHR ''<'', CHR ''>'')]"

definition initialAutoMatchFilter :: "(char \<times> bool) list" where
  "initialAutoMatchFilter =
     [(CHR 0x22, True), (CHR 0x27, True), (CHR ''('', True), (CHR ''['', True),
      (CHR ''{'', True), (CHR ''*'', True), (CHR ''_'', True), (CHR 0x60, True),
      (CHR ''<'', True)]"

definition newMarkdownEditor :: "QTextBlock list \<Rightarrow> MarkdownEditor" where
  \<comment> \<open>The constructor, on a document; the cursor of a new editor is at position 0.\<close>
  "newMarkdownEditor bs =
     \<lparr>document = bs,
      textCursor = \<lparr>anchor = 0, position = 0\<rparr>,
      autoMatchEnabled = True,
      bulletPointCyclingEnabled = True,
      hemingwayModeEnabled = False,
      insertSpacesForTabs = False,
      tabWidth = 4,
      markupPairs = initialMarkupPairs,
      autoMatchFilter = initialAutoMatchFilter\<rparr>"

definition setHemingWayModeEnabled :: "bool \<Rightarrow> MarkdownEditor \<Rightarrow> MarkdownEditor" where
  "setHemingWayModeEnabled enabled s = s\<lparr>hemingwayModeEnabled := enabled\<rparr>"

definition setAutoMatchEnabled :: "bool \<Rightarrow> MarkdownEditor \<Rightarrow> MarkdownEditor" where
  "setAutoMatchEnabled enable s = s\<lparr>autoMatchEnabled := enable\<rparr>"

definition setAutoMatchEnabledFor :: "char \<Rightarrow> bool \<Rightarrow> MarkdownEditor \<Rightarrow> MarkdownEditor" where
  \<comment> \<open>The overload \<open>setAutoMatchEnabled(openingCharacter, enabled)\<close>.\<close>
  "setAutoMatchEnabledFor openingCharacter enabled s =
     s\<lparr>autoMatchFilter := hashInsert (autoMatchFilter s) openingCharacter enabled\<rparr>"

definition setBulletPointCyclingEnabled :: "bool \<Rightarrow> MarkdownEditor \<Rightarrow> MarkdownEditor" where
  "setBulletPointCyclingEnabled enable s = s\<lparr>bulletPointCyclingEnabled := enable\<rparr>"

definition setInsertSpacesForTabs :: "bool \<Rightarrow> MarkdownEditor \<Rightarrow> MarkdownEditor" where
  "setInsertSpacesForTabs enable s = s\<lparr>insertSpacesForTabs := enable\<rparr>"

definition setTabulationWidth :: "int \<Rightarrow> MarkdownEditor \<Rightarrow> MarkdownEditor" where
  "setTabulationWidth width s = s\<lparr>tabWidth := width\<rparr>"

subsection \<open>Edits through a cursor\<close>

text \<open>
  A function of the editor works on a copy of the editor's cursor. An edit through any
  cursor changes the document, and the document then moves every cursor on it, the
  editor's own among them.
\<close>

definition removeSelectedText ::
  "QTextCursor \<Rightarrow> MarkdownEditor \<Rightarrow> QTextCursor \<times> MarkdownEditor" where
  "removeSelectedText c s =
     (if hasSelection c then
        (let p = selectionStart c; n = selectionEnd c - selectionStart c
         in (adjustCursor (adjustRemove p n) c,
             s\<lparr>document := removeRange (document s) p (selectionEnd c),
               textCursor := adjustCursor (adjustRemove p n) (textCursor s)\<rparr>))
      else (c, s))"

definition insertText ::
  "string \<Rightarrow> QTextCursor \<Rightarrow> MarkdownEditor \<Rightarrow> QTextCursor \<times> MarkdownEditor" where
  \<comment> \<open>\<open>QTextCursor::insertText\<close>: a selection is replaced by the text.\<close>
  "insertText str c s =
     (case removeSelectedText c s of
        (c1, s1) \<Rightarrow>
          (let p = position c1; n = length str
           in (adjustCursor (adjustInsert p n) c1,
               s1\<lparr>document := insertAt (document s1) p str,
                  textCursor := adjustCursor (adjustInsert p n) (textCursor s1)\<rparr>)))"

definition deleteChar ::
  "QTextCursor \<Rightarrow> MarkdownEditor \<Rightarrow> QTextCursor \<times> MarkdownEditor" where
  "deleteChar c s =
     (if hasSelection c then removeSelectedText c s
      else removeSelectedText (movePosition (document s) NextCharacter KeepAnchor 1 c) s)"

definition deletePreviousChar ::
  "QTextCursor \<Rightarrow> MarkdownEditor \<Rightarrow> QTextCursor \<times> MarkdownEditor" where
  "deletePreviousChar c s =
     (if hasSelection c then removeSelectedText c s
      else removeSelectedText (movePosition (document s) PreviousCharacter KeepAnchor 1 c) s)"

definition setTextCursor :: "QTextCursor \<Rightarrow> MarkdownEditor \<Rightarrow> MarkdownEditor" where
  "setTextCursor c s = s\<lparr>textCursor := c\<rparr>"

definition characterAt :: "QTextBlock list \<Rightarrow> nat \<Rightarrow> char option" where
  \<comment> \<open>\<open>QTextDocument::characterAt\<close>; \<open>None\<close> stands for the paragraph separator
      at the end of a block, which is not a Latin-1 character.\<close>
  "characterAt bs p =
     (let i = findBlock bs p; k = p - blockPosition bs i
      in if k < length (blockText (bs ! i)) then Some (blockText (bs ! i) ! k) else None)"

section \<open>Continuation on Return\<close>

definition getPriorIndentation :: "MarkdownEditor \<Rightarrow> string" where
  "getPriorIndentation s = takeWhile isSpace (blockText (block (document s) (textCursor s)))"

definition getPriorMarkdownBlockItemStart :: "MarkdownEditor \<Rightarrow> QRegExp \<Rightarrow> string" where
  "getPriorMarkdownBlockItemStart s itemRegex =
     (let text = blockText (block (document s) (textCursor s))
      in case itemRegex text of Some (n, c) \<Rightarrow> take n text | None \<Rightarrow> [])"

definition autoInsertion :: "MarkdownEditor \<Rightarrow> string \<times> bool" where
  \<comment> \<open>The first part of \<open>handleCarriageReturn\<close>: the values of \<open>autoInsertText\<close> and
      \<open>endList\<close> when the switch on the block state is left.\<close>
  "autoInsertion s =
     (let cursor = textCursor s;
          blk = block (document s) cursor;
          text = blockText blk;
          col = positionInBlock (document s) cursor
      in if col < blockLength blk - 1 then
           (let autoInsertText = getPriorIndentation s
            in (if col < length autoInsertText then take col autoInsertText
                else autoInsertText, False))
         else
           (case userState blk of
              MarkdownStateNumberedList \<Rightarrow>
                (let autoInsertText = getPriorMarkdownBlockItemStart s numberedListRegex;
                     capture = capturedTexts numberedListRegex text
                 in if autoInsertText \<noteq> [] \<and> length capture = 2 then
                      (if length text = length autoInsertText then (autoInsertText, True)
                       else (replaceDigitRuns (arg (increment (toInt (capture ! 1))))
                               autoInsertText, False))
                    else (getPriorIndentation s, False))
            | MarkdownStateBulletPointList \<Rightarrow>
                (let autoInsertText = getPriorMarkdownBlockItemStart s taskListRegex
                 in if autoInsertText = [] then
                      (let autoInsertText = getPriorMarkdownBlockItemStart s bulletListRegex
                       in if autoInsertText = [] then (getPriorIndentation s, False)
                          else if length text = length autoInsertText
                          then (autoInsertText, True)
                          else (autoInsertText, False))
                    else if length text = length autoInsertText then (autoInsertText, True)
                    else (replaceChar (CHR ''x'') (CHR '' '') autoInsertText, False))
            | MarkdownStateBlockquote \<Rightarrow>
                (getPriorMarkdownBlockItemStart s blockquoteRegex, False)
            | MarkdownStateOther \<Rightarrow> (getPriorIndentation s, False)))"

definition handleCarriageReturn :: "MarkdownEditor \<Rightarrow> MarkdownEditor" where
  "handleCarriageReturn s =
     (let cursor = textCursor s
      in case autoInsertion s of
           (autoInsertText, endList) \<Rightarrow>
             if endList then
               (let c1 = movePosition (document s) StartOfBlock MoveAnchor 1 cursor;
                    c2 = movePosition (document s) EndOfBlock KeepAnchor 1 c1
                in case insertText (getPriorIndentation s) c2 s of
                     (c3, s3) \<Rightarrow> snd (insertText [newline] c3 s3))
             else snd (insertText (newline # autoInsertText) cursor s))"

section \<open>Backspace\<close>

definition backtrack :: "int \<Rightarrow> MarkdownEditor \<Rightarrow> bool \<times> MarkdownEditor" where
  \<comment> \<open>The last part of \<open>handleBackspaceKey\<close>, from the test of \<open>backtrackIndex\<close>.\<close>
  "backtrack backtrackIndex s =
     (if backtrackIndex \<ge> 0 then
        (let bs = document s;
             c1 = movePosition bs StartOfBlock MoveAnchor 1 (textCursor s);
             c2 = movePosition bs Right MoveAnchor (nat backtrackIndex) c1;
             c3 = movePosition bs EndOfBlock KeepAnchor 1 c2
         in (True, snd (removeSelectedText c3 s)))
      else (False, s))"

definition handleBackspaceKey :: "MarkdownEditor \<Rightarrow> bool \<times> MarkdownEditor" where
  "handleBackspaceKey s =
     (let cursor = textCursor s; bs = document s
      in if hasSelection cursor then (False, s)
         else
           (let text = blockText (block bs cursor)
            in case userState (block bs cursor) of
                 MarkdownStateNumberedList \<Rightarrow>
                   backtrack (if exactMatch numberedListRegex text
                              then indexOf isDigit text else -1) s
               | MarkdownStateBulletPointList \<Rightarrow>
                   backtrack (if exactMatch bulletListRegex text
                                 \<or> exactMatch taskListRegex text
                              then indexOf isBulletChar text else -1) s
               | MarkdownStateBlockquote \<Rightarrow>
                   backtrack (if exactMatch blockquoteRegex text
                              then lastIndexOf (CHR ''>'') text else -1) s
               | MarkdownStateOther \<Rightarrow>
                   if autoMatchEnabled s \<and> positionInBlock bs cursor > 0 then
                     (let currentChar = qcharAt text (positionInBlock bs cursor);
                          previousChar = qcharAt text (positionInBlock bs cursor - 1);
                          s1 = s\<lparr>markupPairs :=
                                   hashSubscript (markupPairs s) nullChar previousChar\<rparr>
                      in if hashValue (markupPairs s1) nullChar previousChar = currentChar
                         then
                           (let c1 = movePosition bs Left MoveAnchor 1 cursor;
                                c2 = movePosition bs Right KeepAnchor 2 c1
                            in (True, snd (removeSelectedText c2 s1)))
                         else backtrack (-1) s1)
                   else backtrack (-1) s))"

definition pairCollapseRead :: "MarkdownEditor \<Rightarrow> (string \<times> nat) option" where
  \<comment> \<open>The read \<open>blockText[cursor.positionInBlock()]\<close> of \<open>handleBackspaceKey\<close>:
      the text and the index, when the default branch gets to it.\<close>
  "pairCollapseRead s =
     (let cursor = textCursor s; bs = document s
      in if \<not> hasSelection cursor \<and> userState (block bs cursor) = MarkdownStateOther
            \<and> autoMatchEnabled s \<and> positionInBlock bs cursor > 0
         then Some (blockText (block bs cursor), positionInBlock bs cursor)
         else None)"

section \<open>Indenting and unindenting\<close>

datatype Fault = DivisionByZero

definition indentUnit :: "MarkdownEditor \<Rightarrow> int \<Rightarrow> string" where
  \<comment> \<open>The text of one indentation: \<open>indent\<close> spaces, or a tab character.\<close>
  "indentUnit s indent =
     (if insertSpacesForTabs s then replicate (nat indent) (CHR '' '') else [CHR 0x09])"

definition selectBlock :: "QTextBlock list \<Rightarrow> QTextCursor \<Rightarrow> QTextCursor" where
  \<comment> \<open>\<open>movePosition(StartOfBlock)\<close>, then \<open>movePosition(EndOfBlock, KeepAnchor)\<close>.\<close>
  "selectBlock bs c =
     movePosition bs EndOfBlock KeepAnchor 1 (movePosition bs StartOfBlock MoveAnchor 1 c)"

definition indentNextBulletPoint :: "char \<Rightarrow> char" where
  "indentNextBulletPoint oldBulletPoint =
     (if oldBulletPoint = CHR ''*'' then CHR ''-''
      else if oldBulletPoint = CHR ''-'' then CHR ''+''
      else CHR ''*'')"

definition unindentNextBulletPoint :: "char \<Rightarrow> char" where
  "unindentNextBulletPoint oldBulletPoint =
     (if oldBulletPoint = CHR ''*'' then CHR ''+''
      else if oldBulletPoint = CHR ''-'' then CHR ''*''
      else CHR ''-'')"

definition indentText :: "MarkdownEditor \<Rightarrow> Fault + MarkdownEditor" where
  "indentText s =
     (let cursor = textCursor s
      in if hasSelection cursor then
           (let first = findBlock (document s) (selectionStart cursor);
                last = findBlock (document s) (selectionEnd cursor)
            in Inr (snd (foldl
                 (\<lambda>(c, s') i.
                    insertText (indentUnit s' (tabWidth s'))
                      (setPosition (blockPosition (document s') i) MoveAnchor c) s')
                 (cursor, s) [first ..< Suc last])))
         else
           (let bs = document s; text = blockText (block bs cursor)
            in case userState (block bs cursor) of
                 MarkdownStateNumberedList \<Rightarrow>
                   if exactMatch numberedListRegex text
                      \<and> length (capturedTexts numberedListRegex text) = 2
                   then
                     (let c1 = selectBlock bs cursor
                      in case insertText (replaceDigitRuns ''1'' (selectedText bs c1)) c1 s of
                           (c2, s2) \<Rightarrow>
                             Inr (snd (insertText (indentUnit s2 (tabWidth s2))
                                    (movePosition (document s2) StartOfBlock MoveAnchor 1 c2)
                                    s2)))
                   else Inr (snd (insertText (indentUnit s (tabWidth s)) cursor s))
               | MarkdownStateBulletPointList \<Rightarrow>
                   if exactMatch bulletListRegex text then
                     (case (if bulletPointCyclingEnabled s then
                              (case trimmed text of
                                 [] \<Rightarrow> (cursor, s)
                               | oldBulletPoint # rest \<Rightarrow>
                                   (let c1 = selectBlock bs cursor
                                    in insertText
                                         (replaceChar oldBulletPoint
                                            (indentNextBulletPoint oldBulletPoint)
                                            (selectedText bs c1)) c1 s))
                            else (cursor, s)) of
                        (c2, s2) \<Rightarrow>
                          Inr (snd (insertText (indentUnit s2 (tabWidth s2))
                                 (movePosition (document s2) StartOfBlock MoveAnchor 1 c2)
                                 s2)))
                   else if exactMatch taskListRegex text then
                     Inr (snd (insertText (indentUnit s (tabWidth s))
                            (movePosition bs StartOfBlock MoveAnchor 1 cursor) s))
                   else Inr (snd (insertText (indentUnit s (tabWidth s)) cursor s))
               | _ \<Rightarrow>
                   if tabWidth s = 0 then Inl DivisionByZero
                   else
                     Inr (snd (insertText
                            (indentUnit s
                               (tabWidth s - int (positionInBlock bs cursor) mod \<bar>tabWidth s\<bar>))
                            cursor s))))"

fun unindentSpaces ::
  "nat \<Rightarrow> QTextCursor \<Rightarrow> MarkdownEditor \<Rightarrow> QTextCursor \<times> MarkdownEditor" where
  \<comment> \<open>The inner loop of \<open>unindentText\<close>; the first argument is what is left of
      \<open>tabWidth - pos\<close>.\<close>
  "unindentSpaces 0 c s = (c, s)"
| "unindentSpaces (Suc n) c s =
     (if characterAt (document s) (position c) = Some (CHR '' '')
      then (case deleteChar c s of (c', s') \<Rightarrow> unindentSpaces n c' s')
      else (c, s))"

definition unindentBlock ::
  "QTextCursor \<times> MarkdownEditor \<Rightarrow> nat \<Rightarrow> QTextCursor \<times> MarkdownEditor" where
  \<comment> \<open>One round of the outer loop of \<open>unindentText\<close>, on the block with number \<open>i\<close>.\<close>
  "unindentBlock cs i =
     (case cs of
        (c, s) \<Rightarrow>
          (let c1 = setPosition (blockPosition (document s) i) MoveAnchor c
           in if characterAt (document s) (position c1) = Some (CHR 0x09)
              then deleteChar c1 s
              else unindentSpaces (nat (tabWidth s)) c1 s))"

definition unindentText :: "MarkdownEditor \<Rightarrow> MarkdownEditor" where
  "unindentText s =
     (let cursor = textCursor s;
          first = findBlock (document s)
                    (if hasSelection cursor then selectionStart cursor else position cursor);
          last = findBlock (document s)
                   (if hasSelection cursor then selectionEnd cursor else position cursor)
      in case foldl unindentBlock (cursor, s) [first ..< Suc last] of
           (c, s1) \<Rightarrow>
             (let bs = document s1; text = blockText (block bs c)
              in if userState (block bs c) = MarkdownStateBulletPointList
                    \<and> exactMatch bulletListRegex text \<and> bulletPointCyclingEnabled s1
                 then
                   (case trimmed text of
                      [] \<Rightarrow> s1
                    | oldBulletPoint # rest \<Rightarrow>
                        (let c1 = selectBlock bs c
                         in snd (insertText
                                   (replaceChar oldBulletPoint
                                      (unindentNextBulletPoint oldBulletPoint)
                                      (selectedText bs c1)) c1 s1)))
                 else s1))"

section \<open>Paired characters\<close>

definition insertPairedCharacters :: "char \<Rightarrow> MarkdownEditor \<Rightarrow> bool \<times> MarkdownEditor" where
  "insertPairedCharacters firstChar s =
     (if hashContains (markupPairs s) firstChar then
        (let lastChar = hashValue (markupPairs s) nullChar firstChar;
             cursor = textCursor s
         in if hasSelection cursor then
              (if findBlock (document s) (selectionStart cursor)
                  = findBlock (document s) (selectionEnd cursor)
               then
                 (case insertText [firstChar]
                         (setPosition (selectionStart cursor) MoveAnchor cursor) s of
                    (c1, s1) \<Rightarrow>
                      (case insertText [lastChar]
                              (setPosition (selectionEnd (textCursor s1)) MoveAnchor c1) s1 of
                         (c2, s2) \<Rightarrow>
                           (let c3 = textCursor s2;
                                c4 = setPosition (selectionStart c3) MoveAnchor c3;
                                c5 = setPosition (selectionEnd (textCursor s2) - 1)
                                       KeepAnchor c4
                            in (True, s2\<lparr>textCursor := c5\<rparr>))))
               else (False, s))
            else if autoMatchEnabled s \<and> hashValue (autoMatchFilter s) False firstChar then
              (case insertText [firstChar] cursor s of
                 (c1, s1) \<Rightarrow>
                   (case insertText [lastChar] c1 s1 of
                      (c2, s2) \<Rightarrow>
                        (True, s2\<lparr>textCursor :=
                                   movePosition (document s2) PreviousCharacter MoveAnchor 1 c2\<rparr>)))
            else (False, s))
      else (False, s))"

definition handleEndPairCharacterTyped :: "char \<Rightarrow> MarkdownEditor \<Rightarrow> bool \<times> MarkdownEditor" where
  "handleEndPairCharacterTyped ch s =
     (let cursor = textCursor s;
          lookAhead =
            (autoMatchEnabled s \<and> \<not> hasSelection cursor
             \<and> ch \<in> set (hashValues (markupPairs s))
             \<and> hashValue (autoMatchFilter s) False (hashKey (markupPairs s) nullChar ch))
      in if lookAhead then
           (let text = blockText (block (document s) cursor);
                pos = positionInBlock (document s) cursor
            in if pos < length text \<and> text ! pos = ch
               then (True, s\<lparr>textCursor :=
                               movePosition (document s) NextCharacter MoveAnchor 1 cursor\<rparr>)
               else (False, s))
         else (False, s))"

section \<open>Key presses\<close>

datatype Key = Key_Return | Key_Delete | Key_Backspace | Key_Tab | Key_Backtab | Key_Other

record QKeyEvent =
  key :: Key
  shiftModifier :: bool
  controlModifier :: bool
  eventText :: string

definition baseKeyPressEvent :: "QKeyEvent \<Rightarrow> MarkdownEditor \<Rightarrow> MarkdownEditor" where
  \<comment> \<open>\<open>QPlainTextEdit::keyPressEvent\<close>, for the keys that edit: Return starts a new
      block, Delete and Backspace delete the selection or one character, a key with a
      text types it over the selection. The other keys of the base class (navigation,
      shortcuts) do not change the text and are left out.\<close>
  "baseKeyPressEvent e s =
     (case key e of
        Key_Return \<Rightarrow>
          (case insertText [newline] (textCursor s) s of (c, s') \<Rightarrow> s'\<lparr>textCursor := c\<rparr>)
      | Key_Delete \<Rightarrow>
          (case deleteChar (textCursor s) s of (c, s') \<Rightarrow> s'\<lparr>textCursor := c\<rparr>)
      | Key_Backspace \<Rightarrow>
          (case deletePreviousChar (textCursor s) s of (c, s') \<Rightarrow> s'\<lparr>textCursor := c\<rparr>)
      | _ \<Rightarrow>
          if eventText e = [] then s
          else (case insertText (eventText e) (textCursor s) s of
                  (c, s') \<Rightarrow> s'\<lparr>textCursor := c\<rparr>))"

definition keyPressEvent :: "QKeyEvent \<Rightarrow> MarkdownEditor \<Rightarrow> Fault + MarkdownEditor" where
  "keyPressEvent e s =
     (let cursor = textCursor s
      in case key e of
           Key_Return \<Rightarrow>
             if \<not> hasSelection cursor then
               (let s1 = (if shiftModifier e then snd (insertText ''  '' cursor s) else s)
                in if controlModifier e
                   then Inr (snd (insertText [newline]
                                    (if shiftModifier e
                                     then fst (insertText ''  '' cursor s) else cursor) s1))
                   else Inr (handleCarriageReturn s1))
             else Inr (baseKeyPressEvent e s)
         | Key_Delete \<Rightarrow>
             if \<not> hemingwayModeEnabled s then Inr (baseKeyPressEvent e s) else Inr s
         | Key_Backspace \<Rightarrow>
             if \<not> hemingwayModeEnabled s then
               (case handleBackspaceKey s of
                  (handled, s1) \<Rightarrow> if \<not> handled then Inr (baseKeyPressEvent e s1) else Inr s1)
             else Inr s
         | Key_Tab \<Rightarrow> indentText s
         | Key_Backtab \<Rightarrow> Inr (unindentText s)
         | Key_Other \<Rightarrow>
             (case eventText e of
                [ch] \<Rightarrow>
                  (case handleEndPairCharacterTyped ch s of
                     (True, s1) \<Rightarrow> Inr s1
                   | (False, s1) \<Rightarrow>
                       (case insertPairedCharacters ch s1 of
                          (True, s2) \<Rightarrow> Inr s2
                        | (False, s2) \<Rightarrow> Inr (baseKeyPressEvent e s2)))
              | _ \<Rightarrow> Inr (baseKeyPressEvent e s)))"

section \<open>Example states\<close>

definition line :: "MarkdownState \<Rightarrow> string \<Rightarrow> QTextBlock" where
  "line u t = \<lparr>blockText = t, userState = u\<rparr>"

definition editorOn :: "QTextBlock list \<Rightarrow> nat \<Rightarrow> nat \<Rightarrow> MarkdownEditor" where
  \<comment> \<open>A new editor on a document, with the anchor and the position of its cursor set.\<close>
  "editorOn bs a p = setTextCursor \<lparr>anchor = a, position = p\<rparr> (newMarkdownEditor bs)"

definition pressed :: "Key \<Rightarrow> QKeyEvent" where
  \<comment> \<open>A key without text, pressed without modifiers.\<close>
  "pressed k = \<lparr>key = k, shiftModifier = False, controlModifier = False, eventText = []\<rparr>"

definition typed :: "char \<Rightarrow> QKeyEvent" where
  \<comment> \<open>The key event of one typed character.\<close>
  "typed ch = \<lparr>key = Key_Other, shiftModifier = False, controlModifier = False,
               eventText = [ch]\<rparr>"

definition linesAfter :: "Fault + MarkdownEditor \<Rightarrow> string list" where
  \<comment> \<open>The lines of the document after a key press.\<close>
  "linesAfter r = (case r of Inr s \<Rightarrow> map blockText (document s) | Inl f \<Rightarrow> [])"

section \<open>Positions inside a block\<close>

lemma characterCount_append [simp]:
  "characterCount (xs @ ys) = characterCount xs + characterCount ys"
  by (simp add: characterCount_def)

lemma characterCount_Cons [simp]:
  "characterCount (b # bs) = Suc (length (blockText b)) + characterCount bs"
  by (simp add: characterCount_def blockLength_def)

lemma characterCount_Nil [simp]: "characterCount [] = 0"
  by (simp add: characterCount_def)

lemma blockPosition_here [simp]:
  "blockPosition (pre @ b # post) (length pre) = characterCount pre"
  by (simp add: blockPosition_def)

lemma findBlock_here:
  "c \<le> length (blockText b) \<Longrightarrow>
   findBlock (pre @ b # post) (characterCount pre + c) = length pre"
proof (induction pre)
  case Nil
  then show ?case by (cases post) (simp_all add: blockLength_def)
next
  case (Cons a pre)
  then show ?case by (cases "pre @ b # post") (simp_all add: blockLength_def)
qed

lemma lastPosition_here:
  "lastPosition (pre @ b # post)
     = characterCount pre + length (blockText b) + characterCount post"
  by (simp add: lastPosition_def)

lemma splitLines_no_newline: "newline \<notin> set str \<Longrightarrow> splitLines str = [str]"
  by (induction str) auto

lemma insertAt_here:
  assumes "c \<le> length (blockText b)" and "newline \<notin> set str"
  shows "insertAt (pre @ b # post) (characterCount pre + c) str
           = pre @ b\<lparr>blockText := take c (blockText b) @ str @ drop c (blockText b)\<rparr> # post"
  using assms by (simp add: insertAt_def Let_def findBlock_here splitLines_no_newline)

lemma insertAt_newline_here:
  assumes "c \<le> length (blockText b)" and "newline \<notin> set str"
  shows "insertAt (pre @ b # post) (characterCount pre + c) (newline # str)
           = pre @ b\<lparr>blockText := take c (blockText b)\<rparr>
                 # newBlock (str @ drop c (blockText b)) # post"
  using assms by (simp add: insertAt_def Let_def findBlock_here splitLines_no_newline)

lemma removeRange_here:
  assumes "c \<le> d" and "d \<le> length (blockText b)"
  shows "removeRange (pre @ b # post) (characterCount pre + c) (characterCount pre + d)
           = pre @ b\<lparr>blockText := take c (blockText b) @ drop d (blockText b)\<rparr> # post"
  using assms by (simp add: removeRange_def Let_def findBlock_here)

lemma moveTarget_StartOfBlock_here:
  "c \<le> length (blockText b) \<Longrightarrow>
   moveTarget (pre @ b # post) StartOfBlock (characterCount pre + c) = characterCount pre"
  by (simp add: moveTarget_def findBlock_here)

lemma moveTarget_EndOfBlock_here:
  "c \<le> length (blockText b) \<Longrightarrow>
   moveTarget (pre @ b # post) EndOfBlock (characterCount pre + c)
     = characterCount pre + length (blockText b)"
  by (simp add: moveTarget_def findBlock_here)

lemma moveTarget_Right_here:
  "c + k \<le> length (blockText b) \<Longrightarrow>
   ((moveTarget (pre @ b # post) Right) ^^ k) (characterCount pre + c)
     = characterCount pre + c + k"
  by (induction k) (simp_all add: moveTarget_def lastPosition_here)

section \<open>Edits inside a block\<close>

lemma block_here:
  assumes "c \<le> length (blockText b)"
  shows "block (pre @ b # post) \<lparr>anchor = a, position = characterCount pre + c\<rparr> = b"
    and "positionInBlock (pre @ b # post) \<lparr>anchor = a, position = characterCount pre + c\<rparr> = c"
    and "blockNumber (pre @ b # post) \<lparr>anchor = a, position = characterCount pre + c\<rparr> = length pre"
  using assms by (simp_all add: block_def positionInBlock_def blockNumber_def findBlock_here)

lemma removeSelectedText_here:
  assumes "document s = pre @ b # post" and "c < d" and "d \<le> length (blockText b)"
    and "(anchor cur = characterCount pre + c \<and> position cur = characterCount pre + d)
         \<or> (anchor cur = characterCount pre + d \<and> position cur = characterCount pre + c)"
  shows "removeSelectedText cur s =
           (\<lparr>anchor = characterCount pre + c, position = characterCount pre + c\<rparr>,
            s\<lparr>document := pre @ b\<lparr>blockText := take c (blockText b) @ drop d (blockText b)\<rparr> # post,
              textCursor := adjustCursor (adjustRemove (characterCount pre + c) (d - c)) (textCursor s)\<rparr>)"
proof -
  have sel: "selectionStart cur = characterCount pre + c" "selectionEnd cur = characterCount pre + d"
    "hasSelection cur"
    using assms(2,4) by (auto simp: selectionStart_def selectionEnd_def hasSelection_def)
  have rm: "removeRange (pre @ b # post) (characterCount pre + c) (characterCount pre + d)
              = pre @ b\<lparr>blockText := take c (blockText b) @ drop d (blockText b)\<rparr> # post"
    using assms(2,3) by (intro removeRange_here) simp_all
  have adj: "adjustCursor (adjustRemove (characterCount pre + c) (d - c)) cur
               = \<lparr>anchor = characterCount pre + c, position = characterCount pre + c\<rparr>"
    using assms(2,4) by (auto simp: adjustCursor_def adjustRemove_def)
  show ?thesis
    by (simp add: removeSelectedText_def sel rm adj assms(1) Let_def)
qed

lemma insertText_here:
  assumes "document s = pre @ b # post" and "c \<le> length (blockText b)"
    and "newline \<notin> set str"
  shows "insertText str \<lparr>anchor = characterCount pre + c, position = characterCount pre + c\<rparr> s =
           (\<lparr>anchor = characterCount pre + c + length str,
             position = characterCount pre + c + length str\<rparr>,
            s\<lparr>document := pre @ b\<lparr>blockText := take c (blockText b) @ str @ drop c (blockText b)\<rparr> # post,
              textCursor := adjustCursor (adjustInsert (characterCount pre + c) (length str)) (textCursor s)\<rparr>)"
  using assms
  by (simp add: insertText_def removeSelectedText_def hasSelection_def Let_def insertAt_here
      adjustCursor_def adjustInsert_def)

lemma insertText_newline_here:
  assumes "document s = pre @ b # post" and "c \<le> length (blockText b)"
    and "newline \<notin> set str"
  shows "insertText (newline # str) \<lparr>anchor = characterCount pre + c, position = characterCount pre + c\<rparr> s =
           (\<lparr>anchor = characterCount pre + c + Suc (length str),
             position = characterCount pre + c + Suc (length str)\<rparr>,
            s\<lparr>document := pre @ b\<lparr>blockText := take c (blockText b)\<rparr>
                              # newBlock (str @ drop c (blockText b)) # post,
              textCursor := adjustCursor (adjustInsert (characterCount pre + c) (Suc (length str)))
                              (textCursor s)\<rparr>)"
  using assms
  by (simp add: insertText_def removeSelectedText_def hasSelection_def Let_def insertAt_newline_here
      adjustCursor_def adjustInsert_def)

lemma insertText_replace_here:
  assumes "document s = pre @ b # post" and "c < d" and "d \<le> length (blockText b)"
    and "(anchor cur = characterCount pre + c \<and> position cur = characterCount pre + d)
         \<or> (anchor cur = characterCount pre + d \<and> position cur = characterCount pre + c)"
    and "newline \<notin> set str"
  shows "insertText str cur s =
           (\<lparr>anchor = characterCount pre + c + length str,
             position = characterCount pre + c + length str\<rparr>,
            s\<lparr>document := pre @ b\<lparr>blockText := take c (blockText b) @ str @ drop d (blockText b)\<rparr> # post,
              textCursor := adjustCursor (adjustInsert (characterCount pre + c) (length str))
                 (adjustCursor (adjustRemove (characterCount pre + c) (d - c)) (textCursor s))\<rparr>)"
proof -
  let ?nb = "b\<lparr>blockText := take c (blockText b) @ drop d (blockText b)\<rparr>"
  have "c \<le> length (blockText ?nb)" using assms(2,3) by simp
  then have ins: "insertAt (pre @ ?nb # post) (characterCount pre + c) str
      = pre @ ?nb\<lparr>blockText := take c (blockText ?nb) @ str @ drop c (blockText ?nb)\<rparr> # post"
    using assms(5) by (rule insertAt_here)
  have tx: "take c (blockText ?nb) @ str @ drop c (blockText ?nb)
               = take c (blockText b) @ str @ drop d (blockText b)"
    using assms(2,3) by simp
  show ?thesis
    unfolding insertText_def removeSelectedText_here [OF assms(1-4)]
    using ins tx by (simp add: Let_def adjustCursor_def adjustInsert_def)
qed

lemma moveTarget_NextCharacter_here:
  "c < length (blockText b) \<Longrightarrow>
   moveTarget (pre @ b # post) NextCharacter (characterCount pre + c) = characterCount pre + c + 1"
  by (simp add: moveTarget_def lastPosition_here)

lemma moveTarget_PreviousCharacter: "moveTarget bs PreviousCharacter p = p - 1"
  by (simp add: moveTarget_def)

lemma endPair_with_selection:
  "hasSelection (textCursor s) \<Longrightarrow> handleEndPairCharacterTyped ch s = (False, s)"
  by (simp add: handleEndPairCharacterTyped_def Let_def)

section \<open>What the patterns match\<close>

lemma numberedListRegex_pos: "numberedListRegex t = Some (n, c) \<Longrightarrow> 0 < n"
  by (auto simp: numberedListRegex_def Let_def split: list.splits if_splits)

lemma space_not_digit: "isSpace c \<Longrightarrow> \<not> isDigit c"
  by (auto simp: isSpace_def isDigit_def)

lemma space_not_bullet: "isSpace c \<Longrightarrow> \<not> isBulletChar c"
  by (auto simp: isSpace_def isBulletChar_def)

lemma indexOf_first:
  "\<forall>x\<in>set xs. \<not> P x \<Longrightarrow> P y \<Longrightarrow> indexOf P (xs @ y # ys) = int (length xs)"
  by (induction xs) (simp_all add: Let_def)

lemma marker_after_indentation:
  assumes "dropWhile isSpace t = m # r" and "P m" and "\<And>c. isSpace c \<Longrightarrow> \<not> P c"
  shows "indexOf P t = int (length (takeWhile isSpace t))"
    and "length (takeWhile isSpace t) < length t"
proof -
  have t: "t = takeWhile isSpace t @ m # r"
    using assms(1) takeWhile_dropWhile_id [of isSpace t] by simp
  have "\<forall>x\<in>set (takeWhile isSpace t). \<not> P x"
    using assms(3) by (auto dest: set_takeWhileD)
  from indexOf_first [OF this assms(2), of r] t
  show "indexOf P t = int (length (takeWhile isSpace t))" by simp
  from t have "length t = length (takeWhile isSpace t) + Suc (length r)"
    by (metis length_append length_Cons)
  then show "length (takeWhile isSpace t) < length t" by simp
qed

lemma takeWhile_nonempty: "takeWhile P xs \<noteq> [] \<Longrightarrow> \<exists>x r. xs = x # r \<and> P x"
  by (cases xs) (auto split: if_splits)

lemma numbered_marker:
  assumes "numberedListRegex t = Some (n, c)"
  shows "indexOf isDigit t = int (length (takeWhile isSpace t))"
    and "length (takeWhile isSpace t) < length t"
proof -
  from assms have "takeWhile isDigit (dropWhile isSpace t) \<noteq> []"
    by (auto simp: numberedListRegex_def Let_def split: list.splits if_splits)
  then obtain d r where "dropWhile isSpace t = d # r" "isDigit d"
    using takeWhile_nonempty by blast
  from marker_after_indentation [where P = isDigit, OF this space_not_digit]
  show "indexOf isDigit t = int (length (takeWhile isSpace t))"
    and "length (takeWhile isSpace t) < length t" by simp_all
qed

lemma bullet_marker:
  assumes "bulletListRegex t = Some (n, c)"
  shows "indexOf isBulletChar t = int (length (takeWhile isSpace t))"
    and "length (takeWhile isSpace t) < length t"
proof -
  from assms obtain m r where "dropWhile isSpace t = m # r" "isBulletChar m"
    by (auto simp: bulletListRegex_def Let_def split: list.splits if_splits)
  from marker_after_indentation [where P = isBulletChar, OF this space_not_bullet]
  show "indexOf isBulletChar t = int (length (takeWhile isSpace t))"
    and "length (takeWhile isSpace t) < length t" by simp_all
qed

lemma task_marker:
  assumes "taskListRegex t = Some (n, c)"
  shows "indexOf isBulletChar t = int (length (takeWhile isSpace t))"
    and "length (takeWhile isSpace t) < length t"
proof -
  from assms obtain m r where "dropWhile isSpace t = m # r" "isBulletChar m"
    by (auto simp: taskListRegex_def Let_def isBulletChar_def split: list.splits if_splits)
  from marker_after_indentation [where P = isBulletChar, OF this space_not_bullet]
  show "indexOf isBulletChar t = int (length (takeWhile isSpace t))"
    and "length (takeWhile isSpace t) < length t" by simp_all
qed

lemma backtrack_here:
  assumes doc: "document s = pre @ b # post"
    and cur: "textCursor s = \<lparr>anchor = characterCount pre + c, position = characterCount pre + c\<rparr>"
    and c: "c \<le> length (blockText b)"
    and k: "k < length (blockText b)"
  shows "backtrack (int k) s =
           (True, s\<lparr>document := pre @ b\<lparr>blockText := take k (blockText b)\<rparr> # post,
                    textCursor := \<lparr>anchor = characterCount pre + min c k,
                                   position = characterCount pre + min c k\<rparr>\<rparr>)"
proof -
  let ?t = "blockText b" and ?P = "characterCount pre"
  have c1: "movePosition (document s) StartOfBlock MoveAnchor 1 (textCursor s)
              = \<lparr>anchor = ?P, position = ?P\<rparr>"
    using moveTarget_StartOfBlock_here [OF c, of pre post]
    by (simp add: movePosition_def setPosition_def doc cur)
  have c2: "movePosition (document s) Right MoveAnchor k \<lparr>anchor = ?P, position = ?P\<rparr>
              = \<lparr>anchor = ?P + k, position = ?P + k\<rparr>"
    using moveTarget_Right_here [of 0 k b pre post] k
    by (simp add: movePosition_def setPosition_def doc)
  have c3: "movePosition (document s) EndOfBlock KeepAnchor 1 \<lparr>anchor = ?P + k, position = ?P + k\<rparr>
              = \<lparr>anchor = ?P + k, position = ?P + length ?t\<rparr>"
    using moveTarget_EndOfBlock_here [of k b pre post] k
    by (simp add: movePosition_def setPosition_def doc)
  have rm: "removeSelectedText \<lparr>anchor = ?P + k, position = ?P + length ?t\<rparr> s =
      (\<lparr>anchor = ?P + k, position = ?P + k\<rparr>,
       s\<lparr>document := pre @ b\<lparr>blockText := take k ?t\<rparr> # post,
         textCursor := \<lparr>anchor = ?P + min c k, position = ?P + min c k\<rparr>\<rparr>)"
    using removeSelectedText_here [OF doc k, of "\<lparr>anchor = ?P + k, position = ?P + length ?t\<rparr>"] c k
    by (auto simp: cur adjustCursor_def adjustRemove_def min_def)
  show ?thesis
    unfolding backtrack_def Let_def nat_int c1 c2 c3 rm by simp
qed

lemma take_length_takeWhile: "take (length (takeWhile P xs)) xs = takeWhile P xs"
  by (induction xs) auto

lemma takeWhile_prefix:
  "\<forall>x\<in>set xs. P x \<Longrightarrow> ys = [] \<or> \<not> P (hd ys) \<Longrightarrow> takeWhile P (xs @ ys) = xs"
  by (induction xs) (auto simp: takeWhile_eq_Nil_iff)

lemma dropWhile_prefix:
  "\<forall>x\<in>set xs. P x \<Longrightarrow> ys = [] \<or> \<not> P (hd ys) \<Longrightarrow> dropWhile P (xs @ ys) = ys"
  by (induction xs) (auto simp: dropWhile_eq_self_iff)

lemma numberedListRegex_item:
  assumes "\<forall>x\<in>set ind. isSpace x" and "ds \<noteq> []" and "\<forall>x\<in>set ds. isDigit x"
    and "p = CHR ''.'' \<or> p = CHR '')''" and "ws \<noteq> []" and "\<forall>x\<in>set ws. isSpace x"
    and "rest = [] \<or> \<not> isSpace (hd rest)"
  shows "numberedListRegex (ind @ ds @ p # ws @ rest)
           = Some (length ind + length ds + 1 + length ws, ds)"
proof -
  have d: "\<not> isSpace (hd (ds @ p # ws @ rest))"
    using assms(2,3) by (cases ds) (auto dest: space_not_digit)
  have p: "\<not> isDigit p" using assms(4) by (auto simp: isDigit_def)
  have 1: "takeWhile isSpace (ind @ ds @ p # ws @ rest) = ind"
    using takeWhile_prefix [OF assms(1), of "ds @ p # ws @ rest"] d by simp
  have 2: "dropWhile isSpace (ind @ ds @ p # ws @ rest) = ds @ p # ws @ rest"
    using dropWhile_prefix [OF assms(1), of "ds @ p # ws @ rest"] d by simp
  have 3: "takeWhile isDigit (ds @ p # ws @ rest) = ds"
    using takeWhile_prefix [OF assms(3), of "p # ws @ rest"] p by simp
  have 4: "dropWhile isDigit (ds @ p # ws @ rest) = p # ws @ rest"
    using dropWhile_prefix [OF assms(3), of "p # ws @ rest"] p by simp
  have 5: "takeWhile isSpace (ws @ rest) = ws"
    using takeWhile_prefix [OF assms(6,7)] .
  show ?thesis
    using assms(2,4,5) by (simp add: numberedListRegex_def 1 2 3 4 5)
qed

lemma replaceDigitRuns_no_digits:
  "\<forall>x\<in>set xs. \<not> isDigit x \<Longrightarrow> replaceDigitRuns r (xs @ ys) = xs @ replaceDigitRuns r ys"
  by (induction xs) simp_all

lemma replaceDigitRuns_run:
  assumes "ds \<noteq> []" and "\<forall>x\<in>set ds. isDigit x" and "ys = [] \<or> \<not> isDigit (hd ys)"
  shows "replaceDigitRuns r (ds @ ys) = r @ replaceDigitRuns r ys"
proof (cases ds)
  case Nil
  with assms(1) show ?thesis by simp
next
  case (Cons d ds')
  with assms(2) have "\<forall>x\<in>set ds'. isDigit x" and "isDigit d" by simp_all
  with dropWhile_prefix [of ds' isDigit ys] assms(3) Cons show ?thesis by simp
qed

lemma replaceDigitRuns_item:
  assumes "\<forall>x\<in>set ind. isSpace x" and "ds \<noteq> []" and "\<forall>x\<in>set ds. isDigit x"
    and "p = CHR ''.'' \<or> p = CHR '')''" and "\<forall>x\<in>set ws. isSpace x"
  shows "replaceDigitRuns r (ind @ ds @ p # ws) = ind @ r @ p # ws"
proof -
  have p: "\<not> isDigit p" using assms(4) by (auto simp: isDigit_def)
  have i: "\<forall>x\<in>set ind. \<not> isDigit x" using assms(1) by (auto dest: space_not_digit)
  have w: "\<forall>x\<in>set (p # ws). \<not> isDigit x" using assms(5) p by (auto dest: space_not_digit)
  have "replaceDigitRuns r (p # ws) = p # ws"
    using replaceDigitRuns_no_digits [OF w, of r "[]"] by simp
  then show ?thesis
    using replaceDigitRuns_no_digits [OF i, of r "ds @ p # ws"]
      replaceDigitRuns_run [OF assms(2,3), of "p # ws" r] p by simp
qed

lemma digitValue_digit: "isDigit c \<Longrightarrow> 0 \<le> digitValue c"
  by (auto simp: isDigit_def digitValue_def)

lemma foldl_digits_nonneg:
  "\<forall>x\<in>set ds. isDigit x \<Longrightarrow> 0 \<le> a \<Longrightarrow> 0 \<le> foldl (\<lambda>n c. 10 * n + digitValue c) a ds"
  by (induction ds arbitrary: a) (simp_all add: digitValue_digit)

lemma digitsValue_nonneg: "\<forall>x\<in>set ds. isDigit x \<Longrightarrow> 0 \<le> digitsValue ds"
  by (simp add: digitsValue_def foldl_digits_nonneg)

lemma digitChar_digit: "isDigit (digitChar d)"
proof -
  have "nat (d mod 10) < length ''0123456789''" by simp
  then have "''0123456789'' ! nat (d mod 10) \<in> set ''0123456789''" by (rule nth_mem)
  then show ?thesis by (simp add: isDigit_def digitChar_def)
qed

lemma decimal_digits: "\<forall>c\<in>set (decimal n). isDigit c"
proof (induction n rule: decimal.induct)
  case (1 n)
  show ?case
  proof (cases "n < 10")
    case True
    then show ?thesis by (subst decimal.simps) (simp add: digitChar_digit)
  next
    case False
    with "1" show ?thesis by (subst decimal.simps) (simp add: digitChar_digit)
  qed
qed

lemma digitValue_digitChar: "digitValue (digitChar d) = d mod 10"
proof -
  define m where "m = d mod 10"
  have "0 \<le> m" and "m < 10" by (simp_all add: m_def)
  then have "m = 0 \<or> m = 1 \<or> m = 2 \<or> m = 3 \<or> m = 4 \<or> m = 5 \<or> m = 6 \<or> m = 7
      \<or> m = 8 \<or> m = 9"
    by arith
  then have "digitValue (''0123456789'' ! nat m) = m"
    by (elim disjE) (simp_all add: digitValue_def)
  then show ?thesis by (simp add: digitChar_def m_def)
qed

lemma digitsValue_snoc: "digitsValue (xs @ [c]) = 10 * digitsValue xs + digitValue c"
  by (simp add: digitsValue_def)

lemma digitsValue_decimal: "0 \<le> n \<Longrightarrow> digitsValue (decimal n) = n"
proof (induction n rule: decimal.induct)
  case (1 n)
  show ?case
  proof (cases "n < 10")
    case True
    with "1.prems" show ?thesis
      by (subst decimal.simps) (simp add: digitsValue_def digitValue_digitChar)
  next
    case False
    with "1" have "digitsValue (decimal (n div 10)) = n div 10" by simp
    with False show ?thesis
      by (subst decimal.simps) (simp add: digitsValue_snoc digitValue_digitChar)
  qed
qed

section \<open>Return on a numbered list item\<close>

text \<open>
  C3. On a line in the numbered-list state whose whole text is a match of the
  numbered-list pattern (an empty item such as \<open>1. \<close>, indented or not), Return with
  the cursor at the end of the line ends the list: the text of the line is replaced by
  its leading white space, and the new line that follows is empty, so it carries no list
  marker. The cursor is left at the start of the new line.
\<close>

theorem numbered_empty_item_ends_list:
  assumes doc: "document s = pre @ b # post"
    and cur: "textCursor s = \<lparr>anchor = characterCount pre + length (blockText b),
                               position = characterCount pre + length (blockText b)\<rparr>"
    and st: "userState b = MarkdownStateNumberedList"
    and em: "exactMatch numberedListRegex (blockText b)"
    and nl: "newline \<notin> set (blockText b)"
    and ev: "key e = Key_Return" "\<not> shiftModifier e" "\<not> controlModifier e"
  shows "keyPressEvent e s = Inr (handleCarriageReturn s)
         \<and> document (handleCarriageReturn s)
             = pre @ b\<lparr>blockText := takeWhile isSpace (blockText b)\<rparr> # newBlock [] # post
         \<and> textCursor (handleCarriageReturn s)
             = \<lparr>anchor = characterCount pre + length (takeWhile isSpace (blockText b)) + 1,
                position = characterCount pre + length (takeWhile isSpace (blockText b)) + 1\<rparr>"
proof -
  let ?t = "blockText b" and ?P = "characterCount pre"
  let ?ind = "takeWhile isSpace (blockText b)"
  obtain c where m: "numberedListRegex ?t = Some (length ?t, c)"
    using em by (auto simp: exactMatch_def split: option.splits)
  have len: "0 < length ?t" using numberedListRegex_pos [OF m] .
  have blk: "block (document s) (textCursor s) = b"
    and col: "positionInBlock (document s) (textCursor s) = length ?t"
    by (simp_all add: doc cur block_here)
  have ind: "getPriorIndentation s = ?ind"
    by (simp add: getPriorIndentation_def blk)
  have start: "getPriorMarkdownBlockItemStart s numberedListRegex = ?t"
    by (simp add: getPriorMarkdownBlockItemStart_def blk m)
  have auto_ins: "autoInsertion s = (?t, True)"
    using len by (simp add: autoInsertion_def Let_def blk col blockLength_def st start
        capturedTexts_def m)
  have c2: "movePosition (document s) EndOfBlock KeepAnchor 1
              (movePosition (document s) StartOfBlock MoveAnchor 1 (textCursor s))
            = \<lparr>anchor = ?P, position = ?P + length ?t\<rparr>"
    using moveTarget_StartOfBlock_here [of "length ?t" b pre post]
      moveTarget_EndOfBlock_here [of 0 b pre post]
    by (simp add: movePosition_def setPosition_def doc cur)
  have nl_ind: "newline \<notin> set ?ind"
    using nl by (meson set_takeWhileD)
  have ins1: "insertText ?ind \<lparr>anchor = ?P, position = ?P + length ?t\<rparr> s
      = (\<lparr>anchor = ?P + length ?ind, position = ?P + length ?ind\<rparr>,
         s\<lparr>document := pre @ b\<lparr>blockText := ?ind\<rparr> # post,
           textCursor := \<lparr>anchor = ?P + length ?ind, position = ?P + length ?ind\<rparr>\<rparr>)"
    using insertText_replace_here [OF doc, of 0 "length ?t"
        "\<lparr>anchor = ?P, position = ?P + length ?t\<rparr>" ?ind] len nl_ind
    by (simp add: cur adjustCursor_def adjustInsert_def adjustRemove_def)
  let ?s3 = "s\<lparr>document := pre @ b\<lparr>blockText := ?ind\<rparr> # post,
           textCursor := \<lparr>anchor = ?P + length ?ind, position = ?P + length ?ind\<rparr>\<rparr>"
  have ins2: "insertText [newline] \<lparr>anchor = ?P + length ?ind, position = ?P + length ?ind\<rparr> ?s3
      = (\<lparr>anchor = ?P + length ?ind + 1, position = ?P + length ?ind + 1\<rparr>,
         ?s3\<lparr>document := pre @ b\<lparr>blockText := ?ind\<rparr> # newBlock [] # post,
           textCursor := \<lparr>anchor = ?P + length ?ind + 1, position = ?P + length ?ind + 1\<rparr>\<rparr>)"
    using insertText_newline_here [of ?s3 pre "b\<lparr>blockText := ?ind\<rparr>" post "length ?ind" "[]"]
    by (simp add: adjustCursor_def adjustInsert_def)
  have res: "handleCarriageReturn s
      = ?s3\<lparr>document := pre @ b\<lparr>blockText := ?ind\<rparr> # newBlock [] # post,
           textCursor := \<lparr>anchor = ?P + length ?ind + 1, position = ?P + length ?ind + 1\<rparr>\<rparr>"
    unfolding handleCarriageReturn_def Let_def auto_ins prod.case if_True c2 ind ins1 ins2 snd_conv
    by simp
  have kp: "keyPressEvent e s = Inr (handleCarriageReturn s)"
    using ev by (simp add: keyPressEvent_def Let_def cur hasSelection_def)
  show ?thesis
    by (simp add: kp res)
qed

theorem numbered_empty_item_ends_list_witness:
  "linesAfter (keyPressEvent (pressed Key_Return)
     (editorOn [line MarkdownStateOther ''ab'', line MarkdownStateNumberedList ''  12. '',
                line MarkdownStateOther ''cd''] 9 9))
   = [''ab'', ''  '', [], ''cd'']"
proof -
  let ?s = "editorOn [line MarkdownStateOther ''ab'', line MarkdownStateNumberedList ''  12. '',
                      line MarkdownStateOther ''cd''] 9 9"
  let ?b = "line MarkdownStateNumberedList ''  12. ''"
  have doc: "document ?s = [line MarkdownStateOther ''ab''] @ ?b # [line MarkdownStateOther ''cd'']"
    by (simp add: editorOn_def setTextCursor_def newMarkdownEditor_def)
  have cur: "textCursor ?s =
      \<lparr>anchor = characterCount [line MarkdownStateOther ''ab''] + length (blockText ?b),
       position = characterCount [line MarkdownStateOther ''ab''] + length (blockText ?b)\<rparr>"
    by (simp add: editorOn_def setTextCursor_def line_def)
  have st: "userState ?b = MarkdownStateNumberedList" by (simp add: line_def)
  have em: "exactMatch numberedListRegex (blockText ?b)" by code_simp
  have nl: "newline \<notin> set (blockText ?b)" by (simp add: line_def newline_def)
  have ev: "key (pressed Key_Return) = Key_Return" "\<not> shiftModifier (pressed Key_Return)"
    "\<not> controlModifier (pressed Key_Return)"
    by (simp_all add: pressed_def)
  from numbered_empty_item_ends_list [OF doc cur st em nl ev]
  show ?thesis
    by (simp add: linesAfter_def newBlock_def line_def isSpace_def)
qed

text \<open>
  C4. The claim is that every numbered item with content is continued with the captured
  number plus one. The number is converted with \<open>toInt\<close> into an \<open>int\<close>; a number that
  does not fit makes the conversion fail with 0, and the next marker is \<open>1\<close>:
\<close>

theorem numbered_item_number_overflows:
  "linesAfter (keyPressEvent (pressed Key_Return)
                 (editorOn [line MarkdownStateNumberedList ''2147483648. a''] 13 13))
     = [''2147483648. a'', ''1. '']"
  by code_simp

text \<open>
  C4, as amended. On a line in the numbered-list state that is white space, digits,
  \<open>.\<close> or \<open>)\<close>, white space and then content, where the number is below
  \<open>2147483647\<close>, Return at the end of the line leaves the line as it is and inserts a
  new line after it with the same marker prefix, in which the digits are replaced by the
  decimal digits of the number plus one.
\<close>

theorem numbered_item_continues_with_next_number:
  assumes doc: "document s = pre @ b # post"
    and tx: "blockText b = ind @ ds @ p # ws @ rest"
    and parts: "\<forall>x\<in>set ind. isSpace x" "ds \<noteq> []" "\<forall>x\<in>set ds. isDigit x"
      "p = CHR ''.'' \<or> p = CHR '')''" "ws \<noteq> []" "\<forall>x\<in>set ws. isSpace x"
      "rest \<noteq> []" "\<not> isSpace (hd rest)"
    and small: "digitsValue ds < 2147483647"
    and nl: "newline \<notin> set (blockText b)"
    and st: "userState b = MarkdownStateNumberedList"
    and cur: "textCursor s = \<lparr>anchor = characterCount pre + length (blockText b),
                               position = characterCount pre + length (blockText b)\<rparr>"
    and ev: "key e = Key_Return" "\<not> shiftModifier e" "\<not> controlModifier e"
  shows "keyPressEvent e s =
           Inr (s\<lparr>document :=
                    pre @ b # newBlock (ind @ decimal (digitsValue ds + 1) @ p # ws) # post,
                  textCursor :=
                    \<lparr>anchor = characterCount pre + length (blockText b)
                               + Suc (length (ind @ decimal (digitsValue ds + 1) @ p # ws)),
                     position = characterCount pre + length (blockText b)
                               + Suc (length (ind @ decimal (digitsValue ds + 1) @ p # ws))\<rparr>\<rparr>)
         \<and> digitsValue (decimal (digitsValue ds + 1)) = digitsValue ds + 1"
proof -
  let ?t = "blockText b" and ?P = "characterCount pre"
  let ?a = "ind @ decimal (digitsValue ds + 1) @ p # ws"
  have m: "numberedListRegex ?t = Some (length ind + length ds + 1 + length ws, ds)"
    unfolding tx using parts(1-6) parts(8) by (intro numberedListRegex_item) simp_all
  have pre_eq: "take (length ind + length ds + 1 + length ws) ?t = ind @ ds @ p # ws"
  proof -
    have "?t = (ind @ ds @ p # ws) @ rest" by (simp add: tx)
    moreover have "length ind + length ds + 1 + length ws = length (ind @ ds @ p # ws)"
      by simp
    ultimately show ?thesis by (metis append_eq_conv_conj)
  qed
  have blk: "block (document s) (textCursor s) = b"
    and col: "positionInBlock (document s) (textCursor s) = length ?t"
    by (simp_all add: doc cur block_here)
  have start: "getPriorMarkdownBlockItemStart s numberedListRegex = ind @ ds @ p # ws"
    unfolding getPriorMarkdownBlockItemStart_def Let_def blk m option.case prod.case pre_eq ..
  have nonneg: "0 \<le> digitsValue ds" using parts(3) by (rule digitsValue_nonneg)
  have num: "arg (increment (toInt ds)) = decimal (digitsValue ds + 1)"
    using small nonneg by (simp add: arg_def increment_def toInt_def)
  have repl: "replaceDigitRuns (decimal (digitsValue ds + 1)) (ind @ ds @ p # ws) = ?a"
    using parts(1-4) parts(6) by (rule replaceDigitRuns_item)
  have longer: "length ?t \<noteq> length (ind @ ds @ p # ws)"
    using parts(7) by (simp add: tx)
  have auto_ins: "autoInsertion s = (?a, False)"
    using longer
    by (simp add: autoInsertion_def Let_def blk col blockLength_def st start
        capturedTexts_def m num repl del: length_append)
  have "\<not> isDigit newline" by (simp add: isDigit_def newline_def)
  then have "newline \<notin> set (decimal (digitsValue ds + 1))"
    using decimal_digits [of "digitsValue ds + 1"] by blast
  moreover have "newline \<notin> set ind" "newline \<notin> set ws"
    using nl unfolding tx by simp_all
  moreover have "p \<noteq> newline"
    using parts(4) by (auto simp: newline_def)
  ultimately have nl_a: "newline \<notin> set ?a" by simp
  have ins: "insertText (newline # ?a) (textCursor s) s =
      (\<lparr>anchor = ?P + length ?t + Suc (length ?a), position = ?P + length ?t + Suc (length ?a)\<rparr>,
       s\<lparr>document := pre @ b # newBlock ?a # post,
         textCursor := \<lparr>anchor = ?P + length ?t + Suc (length ?a),
                        position = ?P + length ?t + Suc (length ?a)\<rparr>\<rparr>)"
    using insertText_newline_here [OF doc order_refl nl_a]
    by (simp add: cur adjustCursor_def adjustInsert_def)
  have res: "handleCarriageReturn s =
      s\<lparr>document := pre @ b # newBlock ?a # post,
        textCursor := \<lparr>anchor = ?P + length ?t + Suc (length ?a),
                       position = ?P + length ?t + Suc (length ?a)\<rparr>\<rparr>"
    unfolding handleCarriageReturn_def Let_def auto_ins prod.case if_False ins snd_conv ..
  have kp: "keyPressEvent e s = Inr (handleCarriageReturn s)"
    using ev by (simp add: keyPressEvent_def Let_def cur hasSelection_def)
  have "digitsValue (decimal (digitsValue ds + 1)) = digitsValue ds + 1"
    using nonneg by (intro digitsValue_decimal) simp
  then show ?thesis
    unfolding kp res by simp
qed

theorem numbered_item_continues_with_next_number_witness:
  "linesAfter (keyPressEvent (pressed Key_Return)
     (editorOn [line MarkdownStateOther ''ab'', line MarkdownStateNumberedList ''  2. foo'',
                line MarkdownStateOther ''cd''] 11 11))
   = [''ab'', ''  2. foo'', ''  3. '', ''cd'']"
proof -
  let ?s = "editorOn [line MarkdownStateOther ''ab'', line MarkdownStateNumberedList ''  2. foo'',
                      line MarkdownStateOther ''cd''] 11 11"
  let ?b = "line MarkdownStateNumberedList ''  2. foo''"
  have doc: "document ?s = [line MarkdownStateOther ''ab''] @ ?b # [line MarkdownStateOther ''cd'']"
    by (simp add: editorOn_def setTextCursor_def newMarkdownEditor_def)
  have tx: "blockText ?b = ''  '' @ ''2'' @ CHR ''.'' # '' '' @ ''foo''"
    by (simp add: line_def)
  have parts: "\<forall>x\<in>set ''  ''. isSpace x" "''2'' \<noteq> []" "\<forall>x\<in>set ''2''. isDigit x"
    "CHR ''.'' = CHR ''.'' \<or> CHR ''.'' = CHR '')''" "'' '' \<noteq> []" "\<forall>x\<in>set '' ''. isSpace x"
    "''foo'' \<noteq> []" "\<not> isSpace (hd ''foo'')"
    by (simp_all add: isSpace_def isDigit_def)
  have small: "digitsValue ''2'' < 2147483647" by code_simp
  have nl: "newline \<notin> set (blockText ?b)" by (simp add: line_def newline_def)
  have st: "userState ?b = MarkdownStateNumberedList" by (simp add: line_def)
  have cur: "textCursor ?s =
      \<lparr>anchor = characterCount [line MarkdownStateOther ''ab''] + length (blockText ?b),
       position = characterCount [line MarkdownStateOther ''ab''] + length (blockText ?b)\<rparr>"
    by (simp add: editorOn_def setTextCursor_def line_def)
  have ev: "key (pressed Key_Return) = Key_Return" "\<not> shiftModifier (pressed Key_Return)"
    "\<not> controlModifier (pressed Key_Return)"
    by (simp_all add: pressed_def)
  have dec: "decimal (digitsValue ''2'' + 1) = ''3''" by code_simp
  from numbered_item_continues_with_next_number [OF doc tx parts small nl st cur ev]
  show ?thesis
    by (simp add: linesAfter_def newBlock_def line_def dec)
qed

section \<open>Backspace on a list item\<close>

text \<open>
  C2. The claim is that Backspace removes the structural prefix of any list item and
  keeps the content, so that \<open>- [x] done\<close> becomes \<open>done\<close>. The editor asks for an
  exact match of the whole line; a line with content is no exact match, the key is not
  handled, and the base class deletes one character:
\<close>

theorem backspace_on_item_with_content:
  "\<not> fst (handleBackspaceKey
            (editorOn [line MarkdownStateBulletPointList ''- [x] done''] 10 10))
   \<and> linesAfter (keyPressEvent (pressed Key_Backspace)
                   (editorOn [line MarkdownStateBulletPointList ''- [x] done''] 10 10))
       = [''- [x] don'']"
  by code_simp

text \<open>
  C2, as amended. On a line whose whole text is a match of the numbered-list pattern (in
  the numbered-list state) or of the bullet-list or task-list pattern (in the
  bullet-list state), that is an item without content, with no selection and the cursor
  at or past the end of the prefix, one Backspace removes everything from the first
  character of the marker to the end of the line: the leading white space is all that
  is left. The column of the cursor is not tested, and \<open>c\<close> below is any column of the
  line. On a line in the numbered-list state that is no such match of the numbered-list
  pattern, or in the bullet-list state that is no such match of the bullet-list or the
  task-list pattern, as a list item with content is, \<open>handleBackspaceKey\<close> does
  nothing and answers that it has not handled the key, which then goes to the base
  class.
\<close>

theorem backspace_on_empty_list_item:
  assumes doc: "document s = pre @ b # post"
    and cur: "textCursor s = \<lparr>anchor = characterCount pre + c, position = characterCount pre + c\<rparr>"
    and c: "c \<le> length (blockText b)"
    and item: "(userState b = MarkdownStateNumberedList \<and> exactMatch numberedListRegex (blockText b))
        \<or> (userState b = MarkdownStateBulletPointList
            \<and> (exactMatch bulletListRegex (blockText b) \<or> exactMatch taskListRegex (blockText b)))"
    and ev: "key e = Key_Backspace" "\<not> hemingwayModeEnabled s"
    and content:
      "(userState (block (document s') (textCursor s')) = MarkdownStateNumberedList
        \<and> \<not> exactMatch numberedListRegex (blockText (block (document s') (textCursor s'))))
       \<or> (userState (block (document s') (textCursor s')) = MarkdownStateBulletPointList
           \<and> \<not> exactMatch bulletListRegex (blockText (block (document s') (textCursor s')))
           \<and> \<not> exactMatch taskListRegex (blockText (block (document s') (textCursor s'))))"
    and ev': "\<not> hemingwayModeEnabled s'"
  shows "keyPressEvent e s =
           Inr (s\<lparr>document := pre @ b\<lparr>blockText := takeWhile isSpace (blockText b)\<rparr> # post,
                  textCursor :=
                    \<lparr>anchor = characterCount pre + min c (length (takeWhile isSpace (blockText b))),
                     position = characterCount pre + min c (length (takeWhile isSpace (blockText b)))\<rparr>\<rparr>)
         \<and> handleBackspaceKey s' = (False, s')
         \<and> keyPressEvent e s' = Inr (baseKeyPressEvent e s')"
proof -
  let ?t = "blockText b"
  let ?k = "length (takeWhile isSpace ?t)"
  have blk: "block (document s) (textCursor s) = b"
    by (simp add: doc cur block_here c)
  have nosel: "\<not> hasSelection (textCursor s)"
    by (simp add: cur hasSelection_def)
  have idx: "(userState b = MarkdownStateNumberedList \<longrightarrow> indexOf isDigit ?t = int ?k)
      \<and> (userState b = MarkdownStateBulletPointList \<longrightarrow> indexOf isBulletChar ?t = int ?k)
      \<and> ?k < length ?t"
    using item
    by (auto simp: exactMatch_def split: option.splits
        dest: numbered_marker bullet_marker task_marker)
  then have k: "?k < length ?t" by simp
  have bt: "backtrack (int ?k) s =
      (True, s\<lparr>document := pre @ b\<lparr>blockText := takeWhile isSpace ?t\<rparr> # post,
               textCursor := \<lparr>anchor = characterCount pre + min c ?k,
                              position = characterCount pre + min c ?k\<rparr>\<rparr>)"
    using backtrack_here [OF doc cur c k] by (simp add: take_length_takeWhile)
  have hb: "handleBackspaceKey s = backtrack (int ?k) s"
    using item idx by (auto simp: handleBackspaceKey_def Let_def nosel blk)
  have 1: "keyPressEvent e s =
           Inr (s\<lparr>document := pre @ b\<lparr>blockText := takeWhile isSpace (blockText b)\<rparr> # post,
                  textCursor :=
                    \<lparr>anchor = characterCount pre + min c (length (takeWhile isSpace (blockText b))),
                     position = characterCount pre + min c (length (takeWhile isSpace (blockText b)))\<rparr>\<rparr>)"
    using ev by (simp add: keyPressEvent_def hb bt)
  have 2: "handleBackspaceKey s' = (False, s')"
    using content by (auto simp: handleBackspaceKey_def Let_def backtrack_def)
  have 3: "keyPressEvent e s' = Inr (baseKeyPressEvent e s')"
    using ev(1) ev' by (simp add: keyPressEvent_def 2)
  from 1 2 3 show ?thesis by (intro conjI)
qed

theorem backspace_on_empty_list_item_witness:
  "linesAfter (keyPressEvent (pressed Key_Backspace)
     (editorOn [line MarkdownStateOther ''ab'', line MarkdownStateBulletPointList ''  - [x] '',
                line MarkdownStateOther ''cd''] 11 11))
   = [''ab'', ''  '', ''cd'']
   \<and> handleBackspaceKey (editorOn [line MarkdownStateNumberedList ''1. foo''] 6 6)
     = (False, editorOn [line MarkdownStateNumberedList ''1. foo''] 6 6)
   \<and> keyPressEvent (pressed Key_Backspace) (editorOn [line MarkdownStateNumberedList ''1. foo''] 6 6)
     = Inr (baseKeyPressEvent (pressed Key_Backspace)
              (editorOn [line MarkdownStateNumberedList ''1. foo''] 6 6))"
proof -
  let ?s = "editorOn [line MarkdownStateOther ''ab'', line MarkdownStateBulletPointList ''  - [x] '',
                      line MarkdownStateOther ''cd''] 11 11"
  let ?b = "line MarkdownStateBulletPointList ''  - [x] ''"
  let ?s' = "editorOn [line MarkdownStateNumberedList ''1. foo''] 6 6"
  have doc: "document ?s = [line MarkdownStateOther ''ab''] @ ?b # [line MarkdownStateOther ''cd'']"
    by (simp add: editorOn_def setTextCursor_def newMarkdownEditor_def)
  have cur: "textCursor ?s =
      \<lparr>anchor = characterCount [line MarkdownStateOther ''ab''] + 8,
       position = characterCount [line MarkdownStateOther ''ab''] + 8\<rparr>"
    by (simp add: editorOn_def setTextCursor_def line_def)
  have c: "8 \<le> length (blockText ?b)" by (simp add: line_def)
  have em: "exactMatch taskListRegex (blockText ?b)" by code_simp
  then have item: "(userState ?b = MarkdownStateNumberedList
        \<and> exactMatch numberedListRegex (blockText ?b))
      \<or> (userState ?b = MarkdownStateBulletPointList
          \<and> (exactMatch bulletListRegex (blockText ?b) \<or> exactMatch taskListRegex (blockText ?b)))"
    by (simp add: line_def)
  have ev: "key (pressed Key_Backspace) = Key_Backspace" "\<not> hemingwayModeEnabled ?s"
    by (simp_all add: pressed_def editorOn_def setTextCursor_def newMarkdownEditor_def)
  have st': "userState (block (document ?s') (textCursor ?s')) = MarkdownStateNumberedList"
    by code_simp
  have nm': "\<not> exactMatch numberedListRegex (blockText (block (document ?s') (textCursor ?s')))"
    by code_simp
  from st' nm' have content:
    "(userState (block (document ?s') (textCursor ?s')) = MarkdownStateNumberedList
        \<and> \<not> exactMatch numberedListRegex (blockText (block (document ?s') (textCursor ?s'))))
       \<or> (userState (block (document ?s') (textCursor ?s')) = MarkdownStateBulletPointList
           \<and> \<not> exactMatch bulletListRegex (blockText (block (document ?s') (textCursor ?s')))
           \<and> \<not> exactMatch taskListRegex (blockText (block (document ?s') (textCursor ?s'))))"
    by (intro disjI1 conjI)
  have ev': "\<not> hemingwayModeEnabled ?s'"
    by (simp add: editorOn_def setTextCursor_def newMarkdownEditor_def)
  from backspace_on_empty_list_item [OF doc cur c item ev content ev']
  have r: "keyPressEvent (pressed Key_Backspace) ?s =
           Inr (?s\<lparr>document := [line MarkdownStateOther ''ab'']
                       @ ?b\<lparr>blockText := takeWhile isSpace (blockText ?b)\<rparr>
                       # [line MarkdownStateOther ''cd''],
                  textCursor :=
                    \<lparr>anchor = characterCount [line MarkdownStateOther ''ab'']
                               + min 8 (length (takeWhile isSpace (blockText ?b))),
                     position = characterCount [line MarkdownStateOther ''ab'']
                               + min 8 (length (takeWhile isSpace (blockText ?b)))\<rparr>\<rparr>)"
    and r2: "handleBackspaceKey ?s' = (False, ?s')"
    and r3: "keyPressEvent (pressed Key_Backspace) ?s'
               = Inr (baseKeyPressEvent (pressed Key_Backspace) ?s')"
    by blast+
  have "linesAfter (keyPressEvent (pressed Key_Backspace) ?s) = [''ab'', ''  '', ''cd'']"
    unfolding r by (simp add: linesAfter_def line_def isSpace_def)
  with r2 r3 show ?thesis by (intro conjI)
qed

section \<open>Indenting and unindenting a bullet item\<close>

lemma bullet_not_space: "isBulletChar m \<Longrightarrow> \<not> isSpace m"
  by (auto simp: isSpace_def isBulletChar_def)

lemma bulletListRegex_item:
  assumes "\<forall>x\<in>set ind. isSpace x" and "isBulletChar m" and "ws \<noteq> []"
    and "\<forall>x\<in>set ws. isSpace x"
  shows "exactMatch bulletListRegex (ind @ m # ws)"
proof -
  have m: "\<not> isSpace m" using assms(2) by (rule bullet_not_space)
  have 1: "takeWhile isSpace (ind @ m # ws) = ind"
    using takeWhile_prefix [OF assms(1), of "m # ws"] m by simp
  have 2: "dropWhile isSpace (ind @ m # ws) = m # ws"
    using dropWhile_prefix [OF assms(1), of "m # ws"] m by simp
  have 3: "takeWhile isSpace ws = ws"
    using assms(4) by simp
  show ?thesis
    using assms(2,3) by (simp add: exactMatch_def bulletListRegex_def 1 2 3)
qed

lemma trimmed_item:
  assumes "\<forall>x\<in>set ind. isSpace x" and "\<not> isSpace m" and "\<forall>x\<in>set ws. isSpace x"
  shows "trimmed (ind @ m # ws) = [m]"
proof -
  have 1: "dropWhile isSpace (ind @ m # ws) = m # ws"
    using dropWhile_prefix [OF assms(1), of "m # ws"] assms(2) by simp
  have "\<forall>x\<in>set (rev ws). isSpace x" using assms(3) by simp
  from dropWhile_prefix [OF this, of "[m]"] assms(2)
  have 2: "dropWhile isSpace (rev ws @ [m]) = [m]" by simp
  show ?thesis by (simp add: trimmed_def 1 2)
qed

lemma replaceChar_item:
  assumes "\<forall>x\<in>set ind. isSpace x" and "\<not> isSpace m" and "\<forall>x\<in>set ws. isSpace x"
  shows "replaceChar m m' (ind @ m # ws) = ind @ m' # ws"
proof -
  have "map (\<lambda>c. if c = m then m' else c) ind = ind"
    using assms(1,2) by (intro map_idI) auto
  moreover have "map (\<lambda>c. if c = m then m' else c) ws = ws"
    using assms(2,3) by (intro map_idI) auto
  ultimately show ?thesis by (simp add: replaceChar_def)
qed

lemma characterAt_here:
  "c < length (blockText b) \<Longrightarrow>
   characterAt (pre @ b # post) (characterCount pre + c) = Some (blockText b ! c)"
  by (simp add: characterAt_def Let_def findBlock_here)

lemma deleteChar_here:
  assumes doc: "document s = pre @ b # post" and c: "c < length (blockText b)"
  shows "deleteChar \<lparr>anchor = characterCount pre + c, position = characterCount pre + c\<rparr> s =
           (\<lparr>anchor = characterCount pre + c, position = characterCount pre + c\<rparr>,
            s\<lparr>document := pre @ b\<lparr>blockText := take c (blockText b) @ drop (Suc c) (blockText b)\<rparr> # post,
              textCursor := adjustCursor (adjustRemove (characterCount pre + c) 1) (textCursor s)\<rparr>)"
proof -
  have mv: "movePosition (document s) NextCharacter KeepAnchor 1
              \<lparr>anchor = characterCount pre + c, position = characterCount pre + c\<rparr>
            = \<lparr>anchor = characterCount pre + c, position = characterCount pre + Suc c\<rparr>"
    using moveTarget_NextCharacter_here [OF c, of pre post]
    by (simp add: movePosition_def setPosition_def doc)
  have "c < Suc c" and "Suc c \<le> length (blockText b)" using c by simp_all
  from removeSelectedText_here [OF doc this,
      of "\<lparr>anchor = characterCount pre + c, position = characterCount pre + Suc c\<rparr>"]
  show ?thesis
    unfolding deleteChar_def mv by (simp add: hasSelection_def)
qed

lemma unindentSpaces_here:
  assumes "document s = pre @ b # post"
    and "blockText b = replicate k (CHR '' '') @ rest"
  shows "\<exists>tc. unindentSpaces k \<lparr>anchor = characterCount pre, position = characterCount pre\<rparr> s
           = (\<lparr>anchor = characterCount pre, position = characterCount pre\<rparr>,
              s\<lparr>document := pre @ b\<lparr>blockText := rest\<rparr> # post, textCursor := tc\<rparr>)"
  using assms
proof (induction k arbitrary: s b)
  case 0
  then have "s = s\<lparr>document := pre @ b\<lparr>blockText := rest\<rparr> # post, textCursor := textCursor s\<rparr>"
    by simp
  then show ?case by (metis unindentSpaces.simps(1))
next
  case (Suc k)
  let ?P = "characterCount pre"
  let ?b1 = "b\<lparr>blockText := replicate k (CHR '' '') @ rest\<rparr>"
  let ?s1 = "s\<lparr>document := pre @ ?b1 # post,
               textCursor := adjustCursor (adjustRemove (?P + 0) 1) (textCursor s)\<rparr>"
  have len: "0 < length (blockText b)" using Suc.prems(2) by simp
  have ch: "characterAt (document s) ?P = Some (CHR '' '')"
    using characterAt_here [OF len, of pre post] Suc.prems by simp
  have del: "deleteChar \<lparr>anchor = ?P, position = ?P\<rparr> s = (\<lparr>anchor = ?P, position = ?P\<rparr>, ?s1)"
    using deleteChar_here [OF Suc.prems(1) len] Suc.prems(2) by simp
  have "document ?s1 = pre @ ?b1 # post" and "blockText ?b1 = replicate k (CHR '' '') @ rest"
    by simp_all
  from Suc.IH [OF this] obtain tc where
    "unindentSpaces k \<lparr>anchor = ?P, position = ?P\<rparr> ?s1
       = (\<lparr>anchor = ?P, position = ?P\<rparr>,
          ?s1\<lparr>document := pre @ ?b1\<lparr>blockText := rest\<rparr> # post, textCursor := tc\<rparr>)"
    by blast
  then have "unindentSpaces (Suc k) \<lparr>anchor = ?P, position = ?P\<rparr> s
       = (\<lparr>anchor = ?P, position = ?P\<rparr>,
          s\<lparr>document := pre @ b\<lparr>blockText := rest\<rparr> # post, textCursor := tc\<rparr>)"
    by (simp add: ch del)
  then show ?case by blast
qed

lemma selectBlock_here:
  "c \<le> length (blockText b) \<Longrightarrow>
   selectBlock (pre @ b # post) \<lparr>anchor = a, position = characterCount pre + c\<rparr>
     = \<lparr>anchor = characterCount pre, position = characterCount pre + length (blockText b)\<rparr>"
  using moveTarget_StartOfBlock_here [of c b pre post] moveTarget_EndOfBlock_here [of 0 b pre post]
  by (simp add: selectBlock_def movePosition_def setPosition_def)

lemma selectedText_block:
  "selectedText (pre @ b # post)
     \<lparr>anchor = characterCount pre, position = characterCount pre + length (blockText b)\<rparr>
     = blockText b"
  using findBlock_here [of 0 b pre post]
  by (simp add: selectedText_def selectionStart_def selectionEnd_def Let_def)

lemma indentUnit_no_newline: "newline \<notin> set (indentUnit s n)"
  by (simp add: indentUnit_def newline_def)

lemma indent_empty_bullet_item:
  assumes doc: "document s = pre @ b # post"
    and cur: "textCursor s = \<lparr>anchor = characterCount pre + c, position = characterCount pre + c\<rparr>"
    and c: "c \<le> length (blockText b)"
    and st: "userState b = MarkdownStateBulletPointList"
    and tx: "blockText b = ind @ m # ws"
    and parts: "\<forall>x\<in>set ind. isSpace x" "isBulletChar m" "ws \<noteq> []" "\<forall>x\<in>set ws. isSpace x"
    and nl: "newline \<notin> set (blockText b)"
    and cyc: "bulletPointCyclingEnabled s"
  shows "indentText s =
           Inr (s\<lparr>document :=
                    pre @ b\<lparr>blockText := indentUnit s (tabWidth s) @ ind
                                           @ indentNextBulletPoint m # ws\<rparr> # post,
                  textCursor :=
                    \<lparr>anchor = characterCount pre + length (blockText b)
                               + length (indentUnit s (tabWidth s)),
                     position = characterCount pre + length (blockText b)
                               + length (indentUnit s (tabWidth s))\<rparr>\<rparr>)"
proof -
  let ?t = "blockText b" and ?P = "characterCount pre"
  let ?m' = "indentNextBulletPoint m"
  let ?t1 = "ind @ ?m' # ws"
  let ?u = "indentUnit s (tabWidth s)"
  have nosel: "\<not> hasSelection (textCursor s)" by (simp add: cur hasSelection_def)
  have blk: "block (document s) (textCursor s) = b"
    by (simp add: doc cur block_here c)
  have ms: "\<not> isSpace m" using parts(2) by (rule bullet_not_space)
  have em: "exactMatch bulletListRegex ?t"
    unfolding tx using parts by (rule bulletListRegex_item)
  have tr: "trimmed ?t = [m]"
    unfolding tx using parts(1) ms parts(4) by (rule trimmed_item)
  have sb: "selectBlock (document s) (textCursor s) = \<lparr>anchor = ?P, position = ?P + length ?t\<rparr>"
    unfolding doc cur using c by (rule selectBlock_here)
  have sel: "selectedText (document s) \<lparr>anchor = ?P, position = ?P + length ?t\<rparr> = ?t"
    unfolding doc by (rule selectedText_block)
  have rc: "replaceChar m ?m' ?t = ?t1"
    unfolding tx using parts(1) ms parts(4) by (rule replaceChar_item)
  have len: "0 < length ?t" by (simp add: tx)
  have "newline \<notin> set ind" "newline \<notin> set ws" using nl by (simp_all add: tx)
  moreover have "?m' \<noteq> newline" by (simp add: indentNextBulletPoint_def newline_def)
  ultimately have nl1: "newline \<notin> set ?t1" by auto
  let ?s2 = "s\<lparr>document := pre @ b\<lparr>blockText := ?t1\<rparr> # post,
               textCursor := \<lparr>anchor = ?P + length ?t, position = ?P + length ?t\<rparr>\<rparr>"
  have i1: "insertText ?t1 \<lparr>anchor = ?P, position = ?P + length ?t\<rparr> s
              = (\<lparr>anchor = ?P + length ?t, position = ?P + length ?t\<rparr>, ?s2)"
  proof -
    have l: "Suc (length ind + length ws) = length ?t" by (simp add: tx)
    have adj: "adjustCursor (adjustInsert ?P (length ?t))
                 (adjustCursor (adjustRemove ?P (length ?t)) (textCursor s))
               = \<lparr>anchor = ?P + length ?t, position = ?P + length ?t\<rparr>"
      using c by (auto simp: cur adjustCursor_def adjustInsert_def adjustRemove_def)
    from insertText_replace_here [OF doc, of 0 "length ?t"
        "\<lparr>anchor = ?P, position = ?P + length ?t\<rparr>" ?t1] len nl1
    show ?thesis
      by (simp add: l adj)
  qed
  have mv: "movePosition (document ?s2) StartOfBlock MoveAnchor 1
              \<lparr>anchor = ?P + length ?t, position = ?P + length ?t\<rparr>
            = \<lparr>anchor = ?P, position = ?P\<rparr>"
    using moveTarget_StartOfBlock_here [of "length ?t" "b\<lparr>blockText := ?t1\<rparr>" pre post]
    by (simp add: movePosition_def setPosition_def tx)
  have u2: "indentUnit ?s2 (tabWidth ?s2) = ?u" by (simp add: indentUnit_def)
  have i2: "insertText ?u \<lparr>anchor = ?P, position = ?P\<rparr> ?s2
              = (\<lparr>anchor = ?P + length ?u, position = ?P + length ?u\<rparr>,
                 s\<lparr>document := pre @ b\<lparr>blockText := ?u @ ?t1\<rparr> # post,
                   textCursor := \<lparr>anchor = ?P + length ?t + length ?u,
                                  position = ?P + length ?t + length ?u\<rparr>\<rparr>)"
    using insertText_here [of ?s2 pre "b\<lparr>blockText := ?t1\<rparr>" post 0 ?u]
      indentUnit_no_newline [of s "tabWidth s"]
    by (simp add: adjustCursor_def adjustInsert_def)
  show ?thesis
    unfolding indentText_def Let_def
    using nosel em cyc
    by (simp only: if_True if_False blk st MarkdownState.case tr list.case sb sel rc i1
        prod.case mv u2 i2 snd_conv simp_thms)
qed

lemma unindent_indented_bullet_item:
  assumes doc: "document s = pre @ b # post"
    and cur: "textCursor s = \<lparr>anchor = characterCount pre + c, position = characterCount pre + c\<rparr>"
    and c: "c \<le> length (blockText b)"
    and st: "userState b = MarkdownStateBulletPointList"
    and tx: "blockText b = u @ ind @ m # ws"
    and u: "u = [CHR 0x09] \<or> (u = replicate (nat (tabWidth s)) (CHR '' '') \<and> 0 < tabWidth s)"
    and parts: "\<forall>x\<in>set ind. isSpace x" "isBulletChar m" "ws \<noteq> []" "\<forall>x\<in>set ws. isSpace x"
    and nl: "newline \<notin> set (blockText b)"
    and cyc: "bulletPointCyclingEnabled s"
  shows "document (unindentText s)
           = pre @ b\<lparr>blockText := ind @ unindentNextBulletPoint m # ws\<rparr> # post"
proof -
  let ?t = "blockText b" and ?P = "characterCount pre"
  let ?t1 = "ind @ m # ws"
  let ?b1 = "b\<lparr>blockText := ?t1\<rparr>"
  let ?m' = "unindentNextBulletPoint m"
  let ?t2 = "ind @ ?m' # ws"
  have nosel: "\<not> hasSelection (textCursor s)" by (simp add: cur hasSelection_def)
  have fb: "findBlock (document s) (position (textCursor s)) = length pre"
    by (simp add: doc cur findBlock_here c)
  have c1: "setPosition (blockPosition (document s) (length pre)) MoveAnchor (textCursor s)
              = \<lparr>anchor = ?P, position = ?P\<rparr>"
    by (simp add: doc setPosition_def)
  have ub: "\<exists>tc. unindentBlock (textCursor s, s) (length pre)
              = (\<lparr>anchor = ?P, position = ?P\<rparr>,
                 s\<lparr>document := pre @ ?b1 # post, textCursor := tc\<rparr>)"
    using u
  proof
    assume tab: "u = [CHR 0x09]"
    have len: "0 < length ?t" by (simp add: tx)
    have ch: "characterAt (document s) ?P = Some (CHR 0x09)"
      using characterAt_here [OF len, of pre post] by (simp add: doc tx tab)
    have "deleteChar \<lparr>anchor = ?P, position = ?P\<rparr> s
            = (\<lparr>anchor = ?P, position = ?P\<rparr>,
               s\<lparr>document := pre @ ?b1 # post,
                 textCursor := adjustCursor (adjustRemove (?P + 0) 1) (textCursor s)\<rparr>)"
      using deleteChar_here [OF doc len] by (simp add: tx tab)
    then have "unindentBlock (textCursor s, s) (length pre)
              = (\<lparr>anchor = ?P, position = ?P\<rparr>,
                 s\<lparr>document := pre @ ?b1 # post,
                   textCursor := adjustCursor (adjustRemove (?P + 0) 1) (textCursor s)\<rparr>)"
      unfolding unindentBlock_def prod.case Let_def c1 by (simp add: ch)
    then show ?thesis by blast
  next
    assume sp: "u = replicate (nat (tabWidth s)) (CHR '' '') \<and> 0 < tabWidth s"
    then obtain k where k: "nat (tabWidth s) = Suc k" by (cases "nat (tabWidth s)") auto
    have len: "0 < length ?t" by (simp add: tx)
    have "blockText b ! 0 = CHR '' ''" using sp k by (simp add: tx)
    then have ch: "characterAt (document s) ?P = Some (CHR '' '')"
      using characterAt_here [OF len, of pre post] by (simp add: doc)
    have "blockText b = replicate (nat (tabWidth s)) (CHR '' '') @ ?t1"
      using sp by (simp add: tx)
    from unindentSpaces_here [OF doc this] obtain tc where
      "unindentSpaces (nat (tabWidth s)) \<lparr>anchor = ?P, position = ?P\<rparr> s
         = (\<lparr>anchor = ?P, position = ?P\<rparr>,
            s\<lparr>document := pre @ ?b1 # post, textCursor := tc\<rparr>)"
      by blast
    then have "unindentBlock (textCursor s, s) (length pre)
              = (\<lparr>anchor = ?P, position = ?P\<rparr>,
                 s\<lparr>document := pre @ ?b1 # post, textCursor := tc\<rparr>)"
      unfolding unindentBlock_def prod.case Let_def c1 by (simp add: ch)
    then show ?thesis by blast
  qed
  then obtain tc where ub1: "unindentBlock (textCursor s, s) (length pre)
              = (\<lparr>anchor = ?P, position = ?P\<rparr>,
                 s\<lparr>document := pre @ ?b1 # post, textCursor := tc\<rparr>)"
    by blast
  let ?s1 = "s\<lparr>document := pre @ ?b1 # post, textCursor := tc\<rparr>"
  have loop: "foldl unindentBlock (textCursor s, s) [length pre ..< Suc (length pre)]
                = (\<lparr>anchor = ?P, position = ?P\<rparr>, ?s1)"
    by (simp add: ub1)
  have ms: "\<not> isSpace m" using parts(2) by (rule bullet_not_space)
  have blk: "block (document ?s1) \<lparr>anchor = ?P, position = ?P\<rparr> = ?b1"
    using block_here(1) [of 0 ?b1 pre post ?P] by simp
  have st1: "userState ?b1 = MarkdownStateBulletPointList" by (simp add: st)
  have em: "exactMatch bulletListRegex (blockText ?b1)"
    using bulletListRegex_item [OF parts] by simp
  have tr: "trimmed (blockText ?b1) = [m]"
    using trimmed_item [OF parts(1) ms parts(4)] by simp
  have sb: "selectBlock (document ?s1) \<lparr>anchor = ?P, position = ?P\<rparr>
              = \<lparr>anchor = ?P, position = ?P + length (blockText ?b1)\<rparr>"
    using selectBlock_here [of 0 ?b1 pre post ?P] by simp
  have sel: "selectedText (document ?s1) \<lparr>anchor = ?P, position = ?P + length (blockText ?b1)\<rparr>
              = blockText ?b1"
    using selectedText_block [of pre ?b1 post] by simp
  have rc: "replaceChar m ?m' (blockText ?b1) = ?t2"
    using replaceChar_item [OF parts(1) ms parts(4)] by simp
  have "newline \<notin> set ind" "newline \<notin> set ws" using nl by (simp_all add: tx)
  moreover have "?m' \<noteq> newline" by (simp add: unindentNextBulletPoint_def newline_def)
  ultimately have nl2: "newline \<notin> set ?t2" by auto
  have ins: "document (snd (insertText ?t2
                \<lparr>anchor = ?P, position = ?P + length (blockText ?b1)\<rparr> ?s1))
             = pre @ b\<lparr>blockText := ?t2\<rparr> # post"
  proof -
    have d1: "document ?s1 = pre @ ?b1 # post" by simp
    have l1: "0 < length (blockText ?b1)" by simp
    from insertText_replace_here [OF d1 l1 order_refl, of
        "\<lparr>anchor = ?P, position = ?P + length (blockText ?b1)\<rparr>" ?t2] nl2
    show ?thesis by simp
  qed
  have cyc1: "bulletPointCyclingEnabled ?s1" using cyc by simp
  have "unindentText s = snd (insertText ?t2
                \<lparr>anchor = ?P, position = ?P + length (blockText ?b1)\<rparr> ?s1)"
    unfolding unindentText_def Let_def
    using nosel em cyc1
    by (simp only: if_True if_False fb loop prod.case blk st1 tr list.case sb sel rc simp_thms)
  then show ?thesis by (simp only: ins)
qed

subsection \<open>Indenting and unindenting any line\<close>

text \<open>
  What \<open>indentText\<close> and \<open>unindentText\<close> do without a selection, for any line of the
  cursor: the line is replaced by a new line and the cursor gets a new column; the new
  line and the column are determined by the block, the column and the settings of the
  editor.
\<close>

lemma set_replaceDigitRuns: "set (replaceDigitRuns r t) \<subseteq> set r \<union> set t"
proof (induction r t rule: replaceDigitRuns.induct)
  case (1 r)
  then show ?case by simp
next
  case (2 r c cs)
  show ?case
  proof (cases "isDigit c")
    case True
    with 2 have "set (replaceDigitRuns r (dropWhile isDigit cs)) \<subseteq> set r \<union> set (dropWhile isDigit cs)"
      by simp
    moreover have "set (dropWhile isDigit cs) \<subseteq> set cs" by (rule set_dropWhileD [THEN subsetI])
    ultimately show ?thesis using True by auto
  next
    case False
    with 2 show ?thesis by auto
  qed
qed

lemma set_replaceChar: "set (replaceChar a b t) \<subseteq> insert b (set t)"
  by (auto simp: replaceChar_def)

lemma replace_line_here:
  assumes doc: "document s = pre @ b # post"
    and cur: "textCursor s = \<lparr>anchor = characterCount pre + c, position = characterCount pre + c\<rparr>"
    and c: "c \<le> length (blockText b)" and len: "0 < length (blockText b)"
    and nl: "newline \<notin> set t1"
    and c': "c' \<le> length (blockText b)"
  shows "insertText t1 (selectBlock (document s) \<lparr>anchor = a, position = characterCount pre + c'\<rparr>) s
           = (\<lparr>anchor = characterCount pre + length t1, position = characterCount pre + length t1\<rparr>,
              s\<lparr>document := pre @ b\<lparr>blockText := t1\<rparr> # post,
                textCursor := \<lparr>anchor = characterCount pre + length t1,
                               position = characterCount pre + length t1\<rparr>\<rparr>)"
proof -
  let ?t = "blockText b" and ?P = "characterCount pre"
  have sb: "selectBlock (document s) \<lparr>anchor = a, position = ?P + c'\<rparr>
              = \<lparr>anchor = ?P, position = ?P + length ?t\<rparr>"
    unfolding doc using c' by (rule selectBlock_here)
  have adj: "adjustCursor (adjustInsert ?P (length t1))
               (adjustCursor (adjustRemove ?P (length ?t)) (textCursor s))
             = \<lparr>anchor = ?P + length t1, position = ?P + length t1\<rparr>"
    using c len by (auto simp: cur adjustCursor_def adjustInsert_def adjustRemove_def)
  from insertText_replace_here [OF doc, of 0 "length ?t"
      "\<lparr>anchor = ?P, position = ?P + length ?t\<rparr>" t1] len nl
  show ?thesis unfolding sb by (simp add: adj)
qed

lemma indent_at_start_here:
  assumes doc: "document s = pre @ b # post"
    and cur: "textCursor s = \<lparr>anchor = characterCount pre + c, position = characterCount pre + c\<rparr>"
    and c': "c' \<le> length (blockText b)"
  shows "insertText (indentUnit s (tabWidth s))
           (movePosition (document s) StartOfBlock MoveAnchor 1
              \<lparr>anchor = a, position = characterCount pre + c'\<rparr>) s
         = (\<lparr>anchor = characterCount pre + length (indentUnit s (tabWidth s)),
             position = characterCount pre + length (indentUnit s (tabWidth s))\<rparr>,
            s\<lparr>document := pre @ b\<lparr>blockText := indentUnit s (tabWidth s) @ blockText b\<rparr> # post,
              textCursor := \<lparr>anchor = characterCount pre + (c + length (indentUnit s (tabWidth s))),
                             position = characterCount pre
                                        + (c + length (indentUnit s (tabWidth s)))\<rparr>\<rparr>)"
proof -
  let ?P = "characterCount pre" and ?u = "indentUnit s (tabWidth s)"
  have mv: "movePosition (document s) StartOfBlock MoveAnchor 1 \<lparr>anchor = a, position = ?P + c'\<rparr>
              = \<lparr>anchor = ?P, position = ?P\<rparr>"
    using moveTarget_StartOfBlock_here [OF c', of pre post]
    by (simp add: movePosition_def setPosition_def doc)
  from insertText_here [OF doc, of 0 ?u] indentUnit_no_newline [of s "tabWidth s"]
  show ?thesis
    unfolding mv by (simp add: cur adjustCursor_def adjustInsert_def)
qed

lemma indent_at_cursor_here:
  assumes doc: "document s = pre @ b # post"
    and cur: "textCursor s = \<lparr>anchor = characterCount pre + c, position = characterCount pre + c\<rparr>"
    and c: "c \<le> length (blockText b)"
  shows "snd (insertText (indentUnit s n) (textCursor s) s)
         = s\<lparr>document := pre @ b\<lparr>blockText := take c (blockText b) @ indentUnit s n
                                                @ drop c (blockText b)\<rparr> # post,
             textCursor := \<lparr>anchor = characterCount pre + (c + length (indentUnit s n)),
                            position = characterCount pre + (c + length (indentUnit s n))\<rparr>\<rparr>"
  using insertText_here [OF doc c indentUnit_no_newline [of s n]]
  by (simp add: cur adjustCursor_def adjustInsert_def)

lemma replace_line_then_indent_here:
  assumes doc: "document s = pre @ b # post"
    and cur: "textCursor s = \<lparr>anchor = characterCount pre + c, position = characterCount pre + c\<rparr>"
    and c: "c \<le> length (blockText b)" and len: "0 < length (blockText b)"
    and nl: "newline \<notin> set t1"
  shows "(case insertText t1 (selectBlock (document s) (textCursor s)) s of
            (c2, s2) \<Rightarrow>
              Inr (snd (insertText (indentUnit s2 (tabWidth s2))
                     (movePosition (document s2) StartOfBlock MoveAnchor 1 c2) s2)))
         = (Inr (s\<lparr>document := pre @ b\<lparr>blockText := indentUnit s (tabWidth s) @ t1\<rparr> # post,
                  textCursor :=
                    \<lparr>anchor = characterCount pre + (length t1 + length (indentUnit s (tabWidth s))),
                     position = characterCount pre
                                + (length t1 + length (indentUnit s (tabWidth s)))\<rparr>\<rparr>)
            :: Fault + MarkdownEditor)"
proof -
  let ?P = "characterCount pre"
  let ?b1 = "b\<lparr>blockText := t1\<rparr>"
  let ?s2 = "s\<lparr>document := pre @ ?b1 # post,
               textCursor := \<lparr>anchor = ?P + length t1, position = ?P + length t1\<rparr>\<rparr>"
  have r: "insertText t1 (selectBlock (document s) (textCursor s)) s
             = (\<lparr>anchor = ?P + length t1, position = ?P + length t1\<rparr>, ?s2)"
    unfolding cur using replace_line_here [OF doc cur c len nl c] .
  have d2: "document ?s2 = pre @ ?b1 # post" by simp
  have c2: "textCursor ?s2 = \<lparr>anchor = ?P + length t1, position = ?P + length t1\<rparr>" by simp
  have l2: "length t1 \<le> length (blockText ?b1)" by simp
  have u2: "indentUnit ?s2 (tabWidth ?s2) = indentUnit s (tabWidth s)"
    by (simp add: indentUnit_def)
  from indent_at_start_here [OF d2 c2 l2, of "?P + length t1"]
  have "snd (insertText (indentUnit s (tabWidth s))
           (movePosition (document ?s2) StartOfBlock MoveAnchor 1
              \<lparr>anchor = ?P + length t1, position = ?P + length t1\<rparr>) ?s2)
        = s\<lparr>document := pre @ b\<lparr>blockText := indentUnit s (tabWidth s) @ t1\<rparr> # post,
            textCursor := \<lparr>anchor = ?P + (length t1 + length (indentUnit s (tabWidth s))),
                           position = ?P + (length t1 + length (indentUnit s (tabWidth s)))\<rparr>\<rparr>"
    unfolding u2 by simp
  then show ?thesis
    unfolding r prod.case u2 by (simp only:)
qed

lemma indent_line_start_here:
  assumes doc: "document s = pre @ b # post"
    and cur: "textCursor s = \<lparr>anchor = characterCount pre + c, position = characterCount pre + c\<rparr>"
    and c: "c \<le> length (blockText b)"
  shows "snd (insertText (indentUnit s (tabWidth s))
                (movePosition (document s) StartOfBlock MoveAnchor 1 (textCursor s)) s)
         = s\<lparr>document := pre @ b\<lparr>blockText := indentUnit s (tabWidth s) @ blockText b\<rparr> # post,
             textCursor := \<lparr>anchor = characterCount pre + (c + length (indentUnit s (tabWidth s))),
                            position = characterCount pre
                                       + (c + length (indentUnit s (tabWidth s)))\<rparr>\<rparr>"
  unfolding cur using indent_at_start_here [OF doc cur c, of "characterCount pre + c"] by simp

lemma exactMatch_nonempty:
  "exactMatch numberedListRegex t \<Longrightarrow> t \<noteq> []"
  "exactMatch bulletListRegex t \<Longrightarrow> t \<noteq> []"
  by (auto simp: exactMatch_def numberedListRegex_def bulletListRegex_def Let_def)

lemma indentText_here:
  assumes c: "c \<le> length (blockText b)" and nl: "newline \<notin> set (blockText b)"
  shows "\<exists>r. \<forall>s pre post.
           document s = pre @ b # post
           \<and> textCursor s = \<lparr>anchor = characterCount pre + c, position = characterCount pre + c\<rparr>
           \<and> insertSpacesForTabs s = spaces \<and> tabWidth s = width
           \<and> bulletPointCyclingEnabled s = cycling
           \<longrightarrow> indentText s =
                 (case r of
                    Inl f \<Rightarrow> Inl f
                  | Inr (t, k) \<Rightarrow>
                      Inr (s\<lparr>document := pre @ b\<lparr>blockText := t\<rparr> # post,
                            textCursor := \<lparr>anchor = characterCount pre + k,
                                           position = characterCount pre + k\<rparr>\<rparr>))"
    (is "\<exists>r. \<forall>s pre post. ?ctx s pre post \<longrightarrow> indentText s = ?res r s pre post")
proof -
  let ?t = "blockText b"
  let ?U = "\<lambda>n. if spaces then replicate (nat n) (CHR '' '') else [CHR 0x09]"
  have unit: "indentUnit s n = ?U n" if "insertSpacesForTabs s = spaces" for s n
    using that by (simp add: indentUnit_def)
  have basics: "\<not> hasSelection (textCursor s)" "block (document s) (textCursor s) = b"
    "positionInBlock (document s) (textCursor s) = c"
    if "document s = pre @ b # post"
      and "textCursor s = \<lparr>anchor = characterCount pre + c, position = characterCount pre + c\<rparr>"
    for s pre post
    using that c by (simp_all add: hasSelection_def block_here)
  \<comment> \<open>The three outcomes.\<close>
  have at_cursor: "?ctx s pre post \<Longrightarrow>
      Inr (snd (insertText (indentUnit s n) (textCursor s) s))
        = ?res (Inr (take c ?t @ ?U n @ drop c ?t, c + length (?U n))) s pre post"
    for s pre post n
    using indent_at_cursor_here [of s pre b post c n] c unit [of s n] by simp
  have at_start: "?ctx s pre post \<Longrightarrow>
      Inr (snd (insertText (indentUnit s (tabWidth s))
                  (movePosition (document s) StartOfBlock MoveAnchor 1 (textCursor s)) s))
        = ?res (Inr (?U width @ ?t, c + length (?U width))) s pre post"
    for s pre post
    using indent_line_start_here [of s pre b post c] c unit [of s width] by simp
  have replaced: "?ctx s pre post \<Longrightarrow>
      (case insertText t1 (selectBlock (document s) (textCursor s)) s of
            (c2, s2) \<Rightarrow>
              Inr (snd (insertText (indentUnit s2 (tabWidth s2))
                     (movePosition (document s2) StartOfBlock MoveAnchor 1 c2) s2)))
        = ?res (Inr (?U width @ t1, length t1 + length (?U width))) s pre post"
    if "newline \<notin> set t1" and "?t \<noteq> []"
    for s pre post t1
    using replace_line_then_indent_here [of s pre b post c t1] c that unit [of s width] by simp
  have sel: "selectedText (document s) (selectBlock (document s) (textCursor s)) = ?t"
    if "?ctx s pre post" for s pre post
  proof -
    from that have doc: "document s = pre @ b # post"
      and cur: "textCursor s = \<lparr>anchor = characterCount pre + c, position = characterCount pre + c\<rparr>"
      by simp_all
    show ?thesis
      unfolding doc cur selectBlock_here [OF c] by (rule selectedText_block)
  qed
  have plain: ?thesis
    if st: "userState b = MarkdownStateBlockquote \<or> userState b = MarkdownStateOther"
  proof (cases "width = 0")
    case True
    show ?thesis
    proof (intro exI allI impI)
      fix s pre post assume ctx: "?ctx s pre post"
      then have b: "\<not> hasSelection (textCursor s)" "block (document s) (textCursor s) = b"
        using basics [of s pre post] by simp_all
      have tw: "tabWidth s = 0" using ctx True by simp
      from st show "indentText s = ?res (Inl DivisionByZero) s pre post"
        unfolding indentText_def Let_def
        using b(1)
        by (auto simp only: if_True if_False b(2) MarkdownState.case tw sum.case simp_thms)
    qed
  next
    case False
    let ?n = "width - int c mod \<bar>width\<bar>"
    show ?thesis
    proof (intro exI allI impI)
      fix s pre post assume ctx: "?ctx s pre post"
      then have b: "\<not> hasSelection (textCursor s)" "block (document s) (textCursor s) = b"
        "positionInBlock (document s) (textCursor s) = c"
        using basics [of s pre post] by simp_all
      have tw: "tabWidth s = width" using ctx by simp
      have tw0: "tabWidth s \<noteq> 0" using tw False by simp
      have ac: "Inr (snd (insertText (indentUnit s (tabWidth s - int c mod \<bar>tabWidth s\<bar>))
                            (textCursor s) s))
              = ?res (Inr (take c ?t @ ?U ?n @ drop c ?t, c + length (?U ?n))) s pre post"
        unfolding tw using ctx by (rule at_cursor)
      from st show "indentText s
              = ?res (Inr (take c ?t @ ?U ?n @ drop c ?t, c + length (?U ?n))) s pre post"
        unfolding indentText_def Let_def
        using b(1) tw0
        by (auto simp only: if_True if_False b(2,3) MarkdownState.case ac simp_thms)
    qed
  qed
  show ?thesis
  proof (cases "userState b")
    case MarkdownStateNumberedList
    show ?thesis
    proof (cases "exactMatch numberedListRegex ?t
                  \<and> length (capturedTexts numberedListRegex ?t) = 2")
      case True
      let ?t1 = "replaceDigitRuns ''1'' ?t"
      have n1: "newline \<notin> set ?t1"
        using set_replaceDigitRuns [of "''1''" ?t] nl by (auto simp: newline_def)
      have ne: "?t \<noteq> []" using True exactMatch_nonempty(1) by blast
      show ?thesis
      proof (intro exI allI impI)
        fix s pre post assume ctx: "?ctx s pre post"
        then have b: "\<not> hasSelection (textCursor s)" "block (document s) (textCursor s) = b"
          using basics [of s pre post] by simp_all
        show "indentText s
                = ?res (Inr (?U width @ ?t1, length ?t1 + length (?U width))) s pre post"
          unfolding indentText_def Let_def
          using True b(1)
          by (simp only: if_True if_False b(2) MarkdownStateNumberedList MarkdownState.case
              sel [OF ctx] replaced [OF n1 ne ctx] simp_thms)
      qed
    next
      case False
      show ?thesis
      proof (intro exI allI impI)
        fix s pre post assume ctx: "?ctx s pre post"
        then have b: "\<not> hasSelection (textCursor s)" "block (document s) (textCursor s) = b"
          using basics [of s pre post] by simp_all
        have tw: "tabWidth s = width" using ctx by simp
        have ac: "Inr (snd (insertText (indentUnit s (tabWidth s)) (textCursor s) s))
                = ?res (Inr (take c ?t @ ?U width @ drop c ?t, c + length (?U width))) s pre post"
          unfolding tw using ctx by (rule at_cursor)
        show "indentText s
                = ?res (Inr (take c ?t @ ?U width @ drop c ?t, c + length (?U width))) s pre post"
          unfolding indentText_def Let_def
          using False b(1)
          by (simp only: if_True if_False b(2) MarkdownStateNumberedList MarkdownState.case
              ac simp_thms)
      qed
    qed
  next
    case MarkdownStateBulletPointList
    show ?thesis
    proof (cases "exactMatch bulletListRegex ?t")
      case True
      have start: ?thesis
        if other: "\<not> cycling \<or> trimmed ?t = []"
      proof (intro exI allI impI)
        fix s pre post assume ctx: "?ctx s pre post"
        then have b: "\<not> hasSelection (textCursor s)" "block (document s) (textCursor s) = b"
          using basics [of s pre post] by simp_all
        have cyc: "bulletPointCyclingEnabled s = cycling" using ctx by simp
        have "(if cycling then case trimmed ?t of [] \<Rightarrow> (textCursor s, s)
                 | oldBulletPoint # rest \<Rightarrow>
                     insertText (replaceChar oldBulletPoint (indentNextBulletPoint oldBulletPoint) ?t)
                       (selectBlock (document s) (textCursor s)) s
               else (textCursor s, s)) = (textCursor s, s)"
          using other by auto
        then show "indentText s = ?res (Inr (?U width @ ?t, c + length (?U width))) s pre post"
          unfolding indentText_def Let_def
          using True b(1)
          by (simp only: if_True if_False b(2) MarkdownStateBulletPointList MarkdownState.case
              cyc sel [OF ctx] prod.case at_start [OF ctx] simp_thms)
      qed
      show ?thesis
      proof (cases "cycling \<and> trimmed ?t \<noteq> []")
        case False
        then show ?thesis by (intro start) blast
      next
        case cy: True
        then obtain m rest where tr: "trimmed ?t = m # rest" by (cases "trimmed ?t") auto
        let ?t1 = "replaceChar m (indentNextBulletPoint m) ?t"
        have "indentNextBulletPoint m \<noteq> newline"
          by (simp add: indentNextBulletPoint_def newline_def)
        then have n1: "newline \<notin> set ?t1"
          using set_replaceChar [of m "indentNextBulletPoint m" ?t] nl by auto
        have ne: "?t \<noteq> []" using True exactMatch_nonempty(2) by blast
        show ?thesis
        proof (intro exI allI impI)
          fix s pre post assume ctx: "?ctx s pre post"
          then have b: "\<not> hasSelection (textCursor s)" "block (document s) (textCursor s) = b"
            using basics [of s pre post] by simp_all
          have cyc: "bulletPointCyclingEnabled s" using ctx cy by simp
          show "indentText s
                  = ?res (Inr (?U width @ ?t1, length ?t1 + length (?U width))) s pre post"
            unfolding indentText_def Let_def
            using True b(1) cyc
            by (simp only: if_True if_False b(2) MarkdownStateBulletPointList MarkdownState.case
                tr list.case sel [OF ctx] replaced [OF n1 ne ctx] simp_thms)
        qed
      qed
    next
      case False
      show ?thesis
      proof (cases "exactMatch taskListRegex ?t")
        case True
        show ?thesis
        proof (intro exI allI impI)
          fix s pre post assume ctx: "?ctx s pre post"
          then have b: "\<not> hasSelection (textCursor s)" "block (document s) (textCursor s) = b"
            using basics [of s pre post] by simp_all
          show "indentText s = ?res (Inr (?U width @ ?t, c + length (?U width))) s pre post"
            unfolding indentText_def Let_def
            using True False b(1)
            by (simp only: if_True if_False b(2) MarkdownStateBulletPointList MarkdownState.case
                at_start [OF ctx] simp_thms)
        qed
      next
        case task: False
        show ?thesis
        proof (intro exI allI impI)
          fix s pre post assume ctx: "?ctx s pre post"
          then have b: "\<not> hasSelection (textCursor s)" "block (document s) (textCursor s) = b"
            using basics [of s pre post] by simp_all
          have tw: "tabWidth s = width" using ctx by simp
          have ac: "Inr (snd (insertText (indentUnit s (tabWidth s)) (textCursor s) s))
                  = ?res (Inr (take c ?t @ ?U width @ drop c ?t, c + length (?U width))) s pre post"
            unfolding tw using ctx by (rule at_cursor)
          show "indentText s
                  = ?res (Inr (take c ?t @ ?U width @ drop c ?t, c + length (?U width))) s pre post"
            unfolding indentText_def Let_def
            using task False b(1)
            by (simp only: if_True if_False b(2) MarkdownStateBulletPointList MarkdownState.case
                ac simp_thms)
        qed
      qed
    qed
  next
    case MarkdownStateBlockquote
    then show ?thesis by (intro plain) simp
  next
    case MarkdownStateOther
    then show ?thesis by (intro plain) simp
  qed
qed

lemma characterAt_end_here:
  "characterAt (pre @ b # post) (characterCount pre + length (blockText b)) = None"
  by (simp add: characterAt_def Let_def findBlock_here)

lemma deleteChar_first_here:
  assumes doc: "document s = pre @ b # post"
    and cur: "textCursor s = \<lparr>anchor = characterCount pre + c, position = characterCount pre + c\<rparr>"
    and tx: "blockText b = x # xs"
  shows "deleteChar \<lparr>anchor = characterCount pre, position = characterCount pre\<rparr> s =
           (\<lparr>anchor = characterCount pre, position = characterCount pre\<rparr>,
            s\<lparr>document := pre @ b\<lparr>blockText := xs\<rparr> # post,
              textCursor := \<lparr>anchor = characterCount pre + (c - 1),
                             position = characterCount pre + (c - 1)\<rparr>\<rparr>)"
proof -
  have len: "0 < length (blockText b)" by (simp add: tx)
  have adj: "adjustCursor (adjustRemove (characterCount pre + 0) 1) (textCursor s)
               = \<lparr>anchor = characterCount pre + (c - 1), position = characterCount pre + (c - 1)\<rparr>"
    by (auto simp: cur adjustCursor_def adjustRemove_def)
  from deleteChar_here [OF doc len] show ?thesis
    unfolding adj by (simp add: tx)
qed

lemma unindentSpaces_frame:
  assumes "document s = pre @ b # post"
    and "textCursor s = \<lparr>anchor = characterCount pre + c, position = characterCount pre + c\<rparr>"
  shows "unindentSpaces k \<lparr>anchor = characterCount pre, position = characterCount pre\<rparr> s
           = (\<lparr>anchor = characterCount pre, position = characterCount pre\<rparr>,
              s\<lparr>document :=
                   pre @ b\<lparr>blockText :=
                             drop (length (takeWhile (\<lambda>x. x = CHR '' '') (take k (blockText b))))
                               (blockText b)\<rparr> # post,
                textCursor :=
                  \<lparr>anchor = characterCount pre
                       + (c - length (takeWhile (\<lambda>x. x = CHR '' '') (take k (blockText b)))),
                   position = characterCount pre
                       + (c - length (takeWhile (\<lambda>x. x = CHR '' '') (take k (blockText b))))\<rparr>\<rparr>)"
  using assms
proof (induction k arbitrary: s b c)
  case 0
  then have "s = s\<lparr>document := pre @ b\<lparr>blockText := blockText b\<rparr> # post,
                    textCursor := \<lparr>anchor = characterCount pre + c,
                                   position = characterCount pre + c\<rparr>\<rparr>"
    by simp
  then show ?case by simp
next
  case (Suc k)
  let ?P = "characterCount pre"
  have same: "s = s\<lparr>document := pre @ b\<lparr>blockText := blockText b\<rparr> # post,
                    textCursor := \<lparr>anchor = ?P + c, position = ?P + c\<rparr>\<rparr>"
    using Suc.prems by simp
  show ?case
  proof (cases "blockText b")
    case Nil
    have "characterAt (document s) ?P = None"
      using characterAt_end_here [of pre b post] by (simp add: Suc.prems(1) Nil)
    then show ?thesis using same by (simp add: Nil)
  next
    case (Cons x xs)
    have len: "0 < length (blockText b)" by (simp add: Cons)
    have ch: "characterAt (document s) ?P = Some x"
      using characterAt_here [OF len, of pre post] by (simp add: Suc.prems(1) Cons)
    show ?thesis
    proof (cases "x = CHR '' ''")
      case False
      then show ?thesis using same by (simp add: ch Cons)
    next
      case True
      let ?b1 = "b\<lparr>blockText := xs\<rparr>"
      let ?s1 = "s\<lparr>document := pre @ ?b1 # post,
                   textCursor := \<lparr>anchor = ?P + (c - 1), position = ?P + (c - 1)\<rparr>\<rparr>"
      have del: "deleteChar \<lparr>anchor = ?P, position = ?P\<rparr> s = (\<lparr>anchor = ?P, position = ?P\<rparr>, ?s1)"
        using Suc.prems Cons by (rule deleteChar_first_here)
      have "document ?s1 = pre @ ?b1 # post"
        and "textCursor ?s1 = \<lparr>anchor = ?P + (c - 1), position = ?P + (c - 1)\<rparr>"
        by simp_all
      from Suc.IH [OF this]
      show ?thesis
        by (simp add: ch del True Cons)
    qed
  qed
qed

lemma unindentBlock_here:
  assumes doc: "document s = pre @ b # post"
    and cur: "textCursor s = \<lparr>anchor = characterCount pre + c, position = characterCount pre + c\<rparr>"
    and n: "n = (if take 1 (blockText b) = [CHR 0x09] then 1
                 else length (takeWhile (\<lambda>x. x = CHR '' '')
                                (take (nat (tabWidth s)) (blockText b))))"
  shows "unindentBlock (textCursor s, s) (length pre)
           = (\<lparr>anchor = characterCount pre, position = characterCount pre\<rparr>,
              s\<lparr>document := pre @ b\<lparr>blockText := drop n (blockText b)\<rparr> # post,
                textCursor := \<lparr>anchor = characterCount pre + (c - n),
                               position = characterCount pre + (c - n)\<rparr>\<rparr>)"
proof -
  let ?P = "characterCount pre"
  have c1: "setPosition (blockPosition (document s) (length pre)) MoveAnchor (textCursor s)
              = \<lparr>anchor = ?P, position = ?P\<rparr>"
    by (simp add: doc setPosition_def)
  show ?thesis
  proof (cases "take 1 (blockText b) = [CHR 0x09]")
    case True
    then obtain xs where tx: "blockText b = CHR 0x09 # xs" by (cases "blockText b") auto
    have len: "0 < length (blockText b)" by (simp add: tx)
    have ch: "characterAt (document s) ?P = Some (CHR 0x09)"
      using characterAt_here [OF len, of pre post] by (simp add: doc tx)
    have n1: "n = 1" using n True by simp
    show ?thesis
      unfolding unindentBlock_def prod.case Let_def c1
      using deleteChar_first_here [OF doc cur tx] by (simp add: ch n1 tx)
  next
    case False
    have ch: "characterAt (document s) ?P \<noteq> Some (CHR 0x09)"
    proof (cases "blockText b")
      case Nil
      then show ?thesis using characterAt_end_here [of pre b post] by (simp add: doc)
    next
      case (Cons x xs)
      then have "0 < length (blockText b)" by simp
      from characterAt_here [OF this, of pre post] False Cons show ?thesis by (simp add: doc)
    qed
    have n2: "n = length (takeWhile (\<lambda>x. x = CHR '' '') (take (nat (tabWidth s)) (blockText b)))"
      using n False by simp
    show ?thesis
      unfolding unindentBlock_def prod.case Let_def c1 n2
      using unindentSpaces_frame [OF doc cur, of "nat (tabWidth s)"] ch by simp
  qed
qed

lemma unindent_loop_here:
  assumes doc: "document s = pre @ b # post"
    and cur: "textCursor s = \<lparr>anchor = characterCount pre + c, position = characterCount pre + c\<rparr>"
    and c: "c \<le> length (blockText b)"
    and n: "n = (if take 1 (blockText b) = [CHR 0x09] then 1
                 else length (takeWhile (\<lambda>x. x = CHR '' '')
                                (take (nat (tabWidth s)) (blockText b))))"
  shows "foldl unindentBlock (textCursor s, s)
           [findBlock (document s)
              (if hasSelection (textCursor s) then selectionStart (textCursor s)
               else position (textCursor s))
            ..< Suc (findBlock (document s)
                       (if hasSelection (textCursor s) then selectionEnd (textCursor s)
                        else position (textCursor s)))]
         = (\<lparr>anchor = characterCount pre, position = characterCount pre\<rparr>,
            s\<lparr>document := pre @ b\<lparr>blockText := drop n (blockText b)\<rparr> # post,
              textCursor := \<lparr>anchor = characterCount pre + (c - n),
                             position = characterCount pre + (c - n)\<rparr>\<rparr>)"
proof -
  have nosel: "\<not> hasSelection (textCursor s)" by (simp add: cur hasSelection_def)
  have fb: "findBlock (document s) (position (textCursor s)) = length pre"
    by (simp add: doc cur findBlock_here c)
  from unindentBlock_here [OF doc cur n] show ?thesis
    using nosel by (simp add: fb)
qed

lemma unindentText_plain_here:
  assumes doc: "document s = pre @ b # post"
    and cur: "textCursor s = \<lparr>anchor = characterCount pre + c, position = characterCount pre + c\<rparr>"
    and c: "c \<le> length (blockText b)"
    and n: "n = (if take 1 (blockText b) = [CHR 0x09] then 1
                 else length (takeWhile (\<lambda>x. x = CHR '' '')
                                (take (nat (tabWidth s)) (blockText b))))"
    and other: "\<not> (userState b = MarkdownStateBulletPointList
                     \<and> exactMatch bulletListRegex (drop n (blockText b))
                     \<and> bulletPointCyclingEnabled s \<and> trimmed (drop n (blockText b)) \<noteq> [])"
  shows "unindentText s
           = s\<lparr>document := pre @ b\<lparr>blockText := drop n (blockText b)\<rparr> # post,
               textCursor := \<lparr>anchor = characterCount pre + (c - n),
                              position = characterCount pre + (c - n)\<rparr>\<rparr>"
proof -
  let ?t = "drop n (blockText b)"
  let ?b1 = "b\<lparr>blockText := ?t\<rparr>"
  let ?c0 = "\<lparr>anchor = characterCount pre, position = characterCount pre\<rparr>"
  let ?s1 = "s\<lparr>document := pre @ ?b1 # post,
               textCursor := \<lparr>anchor = characterCount pre + (c - n),
                              position = characterCount pre + (c - n)\<rparr>\<rparr>"
  have blk: "block (document ?s1) ?c0 = ?b1"
    using block_here(1) [of 0 ?b1 pre post "characterCount pre"] by simp
  have cyc: "bulletPointCyclingEnabled ?s1 = bulletPointCyclingEnabled s" by simp
  have "(if userState ?b1 = MarkdownStateBulletPointList
            \<and> exactMatch bulletListRegex (blockText ?b1) \<and> bulletPointCyclingEnabled s
         then case trimmed (blockText ?b1) of
                [] \<Rightarrow> ?s1
              | oldBulletPoint # rest \<Rightarrow> f oldBulletPoint
         else ?s1) = ?s1" for f
    using other by (cases "trimmed ?t") auto
  then show ?thesis
    unfolding unindentText_def Let_def
    by (simp only: unindent_loop_here [OF doc cur c n] prod.case blk cyc)
qed

lemma unindentText_cycled_here:
  assumes doc: "document s = pre @ b # post"
    and cur: "textCursor s = \<lparr>anchor = characterCount pre + c, position = characterCount pre + c\<rparr>"
    and c: "c \<le> length (blockText b)"
    and n: "n = (if take 1 (blockText b) = [CHR 0x09] then 1
                 else length (takeWhile (\<lambda>x. x = CHR '' '')
                                (take (nat (tabWidth s)) (blockText b))))"
    and nl: "newline \<notin> set (blockText b)"
    and st: "userState b = MarkdownStateBulletPointList"
    and em: "exactMatch bulletListRegex (drop n (blockText b))"
    and cyc: "bulletPointCyclingEnabled s"
    and tr: "trimmed (drop n (blockText b)) = m # rest"
  shows "unindentText s
           = s\<lparr>document :=
                 pre @ b\<lparr>blockText := replaceChar m (unindentNextBulletPoint m)
                                         (drop n (blockText b))\<rparr> # post,
               textCursor :=
                 \<lparr>anchor = characterCount pre
                            + length (replaceChar m (unindentNextBulletPoint m)
                                        (drop n (blockText b))),
                  position = characterCount pre
                            + length (replaceChar m (unindentNextBulletPoint m)
                                        (drop n (blockText b)))\<rparr>\<rparr>"
proof -
  let ?t = "drop n (blockText b)"
  let ?b1 = "b\<lparr>blockText := ?t\<rparr>"
  let ?c0 = "\<lparr>anchor = characterCount pre, position = characterCount pre\<rparr>"
  let ?s1 = "s\<lparr>document := pre @ ?b1 # post,
               textCursor := \<lparr>anchor = characterCount pre + (c - n),
                              position = characterCount pre + (c - n)\<rparr>\<rparr>"
  let ?t1 = "replaceChar m (unindentNextBulletPoint m) ?t"
  have blk: "block (document ?s1) ?c0 = ?b1"
    using block_here(1) [of 0 ?b1 pre post "characterCount pre"] by simp
  have "set ?t \<subseteq> set (blockText b)" by (rule set_drop_subset)
  moreover have "unindentNextBulletPoint m \<noteq> newline"
    by (simp add: unindentNextBulletPoint_def newline_def)
  ultimately have n1: "newline \<notin> set ?t1"
    using set_replaceChar [of m "unindentNextBulletPoint m" ?t] nl by auto
  have "?t \<noteq> []" using em exactMatch_nonempty(2) by blast
  then have ne: "0 < length (blockText ?b1)" by simp
  have st1: "userState ?b1 = MarkdownStateBulletPointList" using st by simp
  have cyc1: "bulletPointCyclingEnabled ?s1" using cyc by simp
  have d1: "document ?s1 = pre @ ?b1 # post" by simp
  have c1: "textCursor ?s1
              = \<lparr>anchor = characterCount pre + (c - n), position = characterCount pre + (c - n)\<rparr>"
    by simp
  have l1: "c - n \<le> length (blockText ?b1)" using c by simp
  have sb: "selectBlock (document ?s1) ?c0
              = \<lparr>anchor = characterCount pre, position = characterCount pre + length ?t\<rparr>"
    using selectBlock_here [of 0 ?b1 pre post "characterCount pre"] by simp
  have sel: "selectedText (document ?s1)
               \<lparr>anchor = characterCount pre, position = characterCount pre + length ?t\<rparr> = ?t"
    using selectedText_block [of pre ?b1 post] by simp
  have ins: "snd (insertText ?t1
               \<lparr>anchor = characterCount pre, position = characterCount pre + length ?t\<rparr> ?s1)
             = s\<lparr>document := pre @ b\<lparr>blockText := ?t1\<rparr> # post,
                 textCursor := \<lparr>anchor = characterCount pre + length ?t1,
                                position = characterCount pre + length ?t1\<rparr>\<rparr>"
    using replace_line_here [OF d1 c1 l1 ne n1, of 0 "characterCount pre"] sb by simp
  have bt: "blockText ?b1 = ?t" by simp
  show ?thesis
    unfolding unindentText_def Let_def
    using st1 em cyc1
    by (simp only: if_True unindent_loop_here [OF doc cur c n] prod.case blk tr list.case
        sb sel ins bt simp_thms)
qed

lemma unindentText_here:
  assumes c: "c \<le> length (blockText b)" and nl: "newline \<notin> set (blockText b)"
  shows "\<exists>t k. \<forall>s pre post.
           document s = pre @ b # post
           \<and> textCursor s = \<lparr>anchor = characterCount pre + c, position = characterCount pre + c\<rparr>
           \<and> tabWidth s = width \<and> bulletPointCyclingEnabled s = cycling
           \<longrightarrow> unindentText s =
                 s\<lparr>document := pre @ b\<lparr>blockText := t\<rparr> # post,
                   textCursor := \<lparr>anchor = characterCount pre + k,
                                  position = characterCount pre + k\<rparr>\<rparr>"
proof -
  define n where "n = (if take 1 (blockText b) = [CHR 0x09] then 1
                 else length (takeWhile (\<lambda>x. x = CHR '' '') (take (nat width) (blockText b))))"
  let ?t = "drop n (blockText b)"
  show ?thesis
  proof (cases "userState b = MarkdownStateBulletPointList \<and> exactMatch bulletListRegex ?t
                   \<and> cycling \<and> trimmed ?t \<noteq> []")
    case False
    show ?thesis
    proof (intro exI allI impI, elim conjE)
      fix s :: MarkdownEditor and pre post
      assume doc: "document s = pre @ b # post"
        and cur: "textCursor s = \<lparr>anchor = characterCount pre + c,
                                    position = characterCount pre + c\<rparr>"
        and tw: "tabWidth s = width" and cy: "bulletPointCyclingEnabled s = cycling"
      have n: "n = (if take 1 (blockText b) = [CHR 0x09] then 1
                 else length (takeWhile (\<lambda>x. x = CHR '' '')
                                (take (nat (tabWidth s)) (blockText b))))"
        by (simp add: n_def tw)
      from False cy
      have "\<not> (userState b = MarkdownStateBulletPointList \<and> exactMatch bulletListRegex ?t
                 \<and> bulletPointCyclingEnabled s \<and> trimmed ?t \<noteq> [])"
        by simp
      with doc cur c n
      show "unindentText s
              = s\<lparr>document := pre @ b\<lparr>blockText := ?t\<rparr> # post,
                  textCursor := \<lparr>anchor = characterCount pre + (c - n),
                                 position = characterCount pre + (c - n)\<rparr>\<rparr>"
        by (rule unindentText_plain_here)
    qed
  next
    case True
    then obtain m rest where tr: "trimmed ?t = m # rest" by (cases "trimmed ?t") auto
    let ?t1 = "replaceChar m (unindentNextBulletPoint m) ?t"
    show ?thesis
    proof (intro exI allI impI, elim conjE)
      fix s :: MarkdownEditor and pre post
      assume doc: "document s = pre @ b # post"
        and cur: "textCursor s = \<lparr>anchor = characterCount pre + c,
                                    position = characterCount pre + c\<rparr>"
        and tw: "tabWidth s = width" and cy: "bulletPointCyclingEnabled s = cycling"
      have n: "n = (if take 1 (blockText b) = [CHR 0x09] then 1
                 else length (takeWhile (\<lambda>x. x = CHR '' '')
                                (take (nat (tabWidth s)) (blockText b))))"
        by (simp add: n_def tw)
      have st: "userState b = MarkdownStateBulletPointList"
        and em: "exactMatch bulletListRegex ?t" and cyc: "bulletPointCyclingEnabled s"
        using True cy by simp_all
      from doc cur c n nl st em cyc tr
      show "unindentText s
              = s\<lparr>document := pre @ b\<lparr>blockText := ?t1\<rparr> # post,
                  textCursor := \<lparr>anchor = characterCount pre + length ?t1,
                                 position = characterCount pre + length ?t1\<rparr>\<rparr>"
        by (rule unindentText_cycled_here)
    qed
  qed
qed

lemma exactMatch_bullet_Cons:
  assumes "isSpace x"
  shows "exactMatch bulletListRegex (x # t) = exactMatch bulletListRegex t"
proof -
  have "bulletListRegex (x # t)
          = (case bulletListRegex t of None \<Rightarrow> None | Some (n, c) \<Rightarrow> Some (Suc n, c))"
    using assms
    by (cases "dropWhile isSpace t")
      (simp_all add: bulletListRegex_def Let_def del: dropWhile_eq_Nil_conv)
  then show ?thesis
    by (simp add: exactMatch_def split: option.splits)
qed

lemma exactMatch_bullet_drop:
  "\<forall>x\<in>set (take n t). isSpace x \<Longrightarrow>
   exactMatch bulletListRegex (drop n t) = exactMatch bulletListRegex t"
proof (induction n arbitrary: t)
  case 0
  then show ?case by simp
next
  case (Suc n)
  show ?case
  proof (cases t)
    case Nil
    then show ?thesis by simp
  next
    case (Cons x xs)
    with Suc.prems have "isSpace x" and "\<forall>y\<in>set (take n xs). isSpace y" by simp_all
    with Suc.IH [of xs] show ?thesis by (simp add: Cons exactMatch_bullet_Cons)
  qed
qed

lemma unindented_spaces:
  assumes "n = (if take 1 t = [CHR 0x09] then 1
                else length (takeWhile (\<lambda>x. x = CHR '' '') (take k t)))"
  shows "\<forall>x\<in>set (take n t). isSpace x"
proof (cases "take 1 t = [CHR 0x09]")
  case True
  then show ?thesis using assms by (simp add: isSpace_def)
next
  case False
  let ?w = "takeWhile (\<lambda>x. x = CHR '' '') (take k t)"
  have n: "n = length ?w" using assms False by simp
  have "take (length ?w) (take k t) = ?w" by (rule take_length_takeWhile)
  moreover have "length ?w \<le> k" using length_takeWhile_le [of _ "take k t"] by simp
  ultimately have "take n t = ?w" by (simp add: n min_def)
  moreover have "\<forall>x\<in>set ?w. x = CHR '' ''" by (auto dest: set_takeWhileD)
  ultimately show ?thesis by (auto simp: isSpace_def)
qed

lemma indent_bullet_item_with_content:
  assumes doc: "document s = pre @ b # post"
    and cur: "textCursor s = \<lparr>anchor = characterCount pre + c, position = characterCount pre + c\<rparr>"
    and c: "c \<le> length (blockText b)"
    and st: "userState b = MarkdownStateBulletPointList"
    and content: "\<not> exactMatch bulletListRegex (blockText b)"
  shows "indentText s =
           Inr (s\<lparr>document :=
                    pre @ b\<lparr>blockText :=
                              (if exactMatch taskListRegex (blockText b)
                               then indentUnit s (tabWidth s) @ blockText b
                               else take c (blockText b) @ indentUnit s (tabWidth s)
                                    @ drop c (blockText b))\<rparr> # post,
                  textCursor :=
                    \<lparr>anchor = characterCount pre + (c + length (indentUnit s (tabWidth s))),
                     position = characterCount pre
                                + (c + length (indentUnit s (tabWidth s)))\<rparr>\<rparr>)"
proof -
  have nosel: "\<not> hasSelection (textCursor s)" by (simp add: cur hasSelection_def)
  have blk: "block (document s) (textCursor s) = b"
    by (simp add: doc cur block_here c)
  show ?thesis
  proof (cases "exactMatch taskListRegex (blockText b)")
    case True
    show ?thesis
      unfolding indentText_def Let_def
      using nosel content True
      by (simp only: if_True if_False blk st MarkdownState.case
          indent_line_start_here [OF doc cur c] simp_thms)
  next
    case False
    show ?thesis
      unfolding indentText_def Let_def
      using nosel content False
      by (simp only: if_True if_False blk st MarkdownState.case
          indent_at_cursor_here [OF doc cur c] simp_thms)
  qed
qed

lemma unindent_bullet_item_with_content:
  assumes doc: "document s = pre @ b # post"
    and cur: "textCursor s = \<lparr>anchor = characterCount pre + c, position = characterCount pre + c\<rparr>"
    and c: "c \<le> length (blockText b)"
    and n: "n = (if take 1 (blockText b) = [CHR 0x09] then 1
                 else length (takeWhile (\<lambda>x. x = CHR '' '')
                                (take (nat (tabWidth s)) (blockText b))))"
    and content: "\<not> exactMatch bulletListRegex (blockText b)"
  shows "unindentText s
           = s\<lparr>document := pre @ b\<lparr>blockText := drop n (blockText b)\<rparr> # post,
               textCursor := \<lparr>anchor = characterCount pre + (c - n),
                              position = characterCount pre + (c - n)\<rparr>\<rparr>"
proof -
  have "\<not> exactMatch bulletListRegex (drop n (blockText b))"
    using exactMatch_bullet_drop [OF unindented_spaces [OF n]] content by simp
  then have "\<not> (userState b = MarkdownStateBulletPointList
                 \<and> exactMatch bulletListRegex (drop n (blockText b))
                 \<and> bulletPointCyclingEnabled s \<and> trimmed (drop n (blockText b)) \<noteq> [])"
    by simp
  with doc cur c n show ?thesis by (rule unindentText_plain_here)
qed

text \<open>
  C5. The claim is that indenting any bullet line with the marker \<open>*\<close> turns the
  marker into \<open>-\<close>. The marker is cycled only when the whole line is a match of the
  bullet pattern; a bullet item with content keeps its marker, and the indentation is
  inserted at the cursor:
\<close>

theorem bullet_item_with_content_keeps_marker:
  "bulletPointCyclingEnabled (editorOn [line MarkdownStateBulletPointList ''* foo''] 5 5)
   \<and> linesAfter (keyPressEvent (pressed Key_Tab)
                   (editorOn [line MarkdownStateBulletPointList ''* foo''] 5 5))
       = [''* foo'' @ [CHR 0x09]]"
  by code_simp

text \<open>
  C5, as amended. For a line in the bullet-list state whose whole text is a match of the
  bullet pattern (white space, a marker \<open>m\<close>, white space), with cycling enabled, no
  selection and a tab width above 0, indenting puts one indentation at the start of the
  line and turns the marker into the next one of the cycle \<open>*\<close>, \<open>-\<close>, \<open>+\<close>, \<open>*\<close>; and
  unindenting the line that results, in any editor where it is the line of the cursor
  and still in the bullet-list state, with cycling enabled and the same tab width,
  removes the indentation and turns the marker into \<open>m\<close> again, the step of the cycle
  \<open>*\<close>, \<open>+\<close>, \<open>-\<close>, \<open>*\<close> of unindenting, so that the text of the line is the one before
  the indentation. On a line in the bullet-list state whose whole text is no match of
  the bullet pattern, as a bullet item with content is, and with no selection, the
  marker is left alone: indenting only inserts one indentation, at the start of the line
  if the line is an empty task item and else at the cursor, and unindenting only removes
  a tab character or at most \<open>tabWidth\<close> spaces from the start of the line.
\<close>

theorem bullet_cycle_round_trip:
  assumes doc: "document s = pre @ b # post"
    and cur: "textCursor s = \<lparr>anchor = characterCount pre + c, position = characterCount pre + c\<rparr>"
    and c: "c \<le> length (blockText b)"
    and st: "userState b = MarkdownStateBulletPointList"
    and tx: "blockText b = ind @ m # ws"
    and parts: "\<forall>x\<in>set ind. isSpace x" "isBulletChar m" "ws \<noteq> []" "\<forall>x\<in>set ws. isSpace x"
    and nl: "newline \<notin> set (blockText b)"
    and cyc: "bulletPointCyclingEnabled s"
    and tw: "0 < tabWidth s"
    and doc': "document s' = pre' @ b' # post'"
    and cur': "textCursor s' = \<lparr>anchor = characterCount pre' + c',
                                 position = characterCount pre' + c'\<rparr>"
    and c': "c' \<le> length (blockText b')"
    and st': "userState b' = MarkdownStateBulletPointList"
    and tx': "blockText b' = indentUnit s (tabWidth s) @ ind @ indentNextBulletPoint m # ws"
    and cyc': "bulletPointCyclingEnabled s'"
    and tw': "tabWidth s' = tabWidth s"
    and doc'': "document e = pre'' @ b'' # post''"
    and cur'': "textCursor e = \<lparr>anchor = characterCount pre'' + c'',
                                 position = characterCount pre'' + c''\<rparr>"
    and c'': "c'' \<le> length (blockText b'')"
    and st'': "userState b'' = MarkdownStateBulletPointList"
    and content: "\<not> exactMatch bulletListRegex (blockText b'')"
  shows "indentText s =
           Inr (s\<lparr>document :=
                    pre @ b\<lparr>blockText := indentUnit s (tabWidth s) @ ind
                                           @ indentNextBulletPoint m # ws\<rparr> # post,
                  textCursor :=
                    \<lparr>anchor = characterCount pre + length (blockText b)
                               + length (indentUnit s (tabWidth s)),
                     position = characterCount pre + length (blockText b)
                               + length (indentUnit s (tabWidth s))\<rparr>\<rparr>)
         \<and> document (unindentText s')
             = pre' @ b'\<lparr>blockText := ind @ m # ws\<rparr> # post'
         \<and> indentNextBulletPoint (CHR ''*'') = CHR ''-''
         \<and> indentNextBulletPoint (CHR ''-'') = CHR ''+''
         \<and> indentNextBulletPoint (CHR ''+'') = CHR ''*''
         \<and> unindentNextBulletPoint (CHR ''*'') = CHR ''+''
         \<and> unindentNextBulletPoint (CHR ''+'') = CHR ''-''
         \<and> unindentNextBulletPoint (CHR ''-'') = CHR ''*''
         \<and> indentText e =
             Inr (e\<lparr>document :=
                      pre'' @ b''\<lparr>blockText :=
                                   (if exactMatch taskListRegex (blockText b'')
                                    then indentUnit e (tabWidth e) @ blockText b''
                                    else take c'' (blockText b'') @ indentUnit e (tabWidth e)
                                         @ drop c'' (blockText b''))\<rparr> # post'',
                    textCursor :=
                      \<lparr>anchor = characterCount pre'' + (c'' + length (indentUnit e (tabWidth e))),
                       position = characterCount pre''
                                  + (c'' + length (indentUnit e (tabWidth e)))\<rparr>\<rparr>)
         \<and> (let n = (if take 1 (blockText b'') = [CHR 0x09] then 1
                      else length (takeWhile (\<lambda>x. x = CHR '' '')
                                     (take (nat (tabWidth e)) (blockText b''))))
            in unindentText e
                 = e\<lparr>document := pre'' @ b''\<lparr>blockText := drop n (blockText b'')\<rparr> # post'',
                     textCursor := \<lparr>anchor = characterCount pre'' + (c'' - n),
                                    position = characterCount pre'' + (c'' - n)\<rparr>\<rparr>)"
proof -
  have 1: "indentText s =
           Inr (s\<lparr>document :=
                    pre @ b\<lparr>blockText := indentUnit s (tabWidth s) @ ind
                                           @ indentNextBulletPoint m # ws\<rparr> # post,
                  textCursor :=
                    \<lparr>anchor = characterCount pre + length (blockText b)
                               + length (indentUnit s (tabWidth s)),
                     position = characterCount pre + length (blockText b)
                               + length (indentUnit s (tabWidth s))\<rparr>\<rparr>)"
    using doc cur c st tx parts nl cyc by (rule indent_empty_bullet_item)
  have marker: "isBulletChar (indentNextBulletPoint m)"
    by (simp add: indentNextBulletPoint_def isBulletChar_def)
  have restored: "unindentNextBulletPoint (indentNextBulletPoint m) = m"
    using parts(2) by (auto simp: indentNextBulletPoint_def unindentNextBulletPoint_def
        isBulletChar_def)
  have u: "indentUnit s (tabWidth s) = [CHR 0x09]
      \<or> (indentUnit s (tabWidth s) = replicate (nat (tabWidth s')) (CHR '' '') \<and> 0 < tabWidth s')"
    using tw tw' by (simp add: indentUnit_def)
  have "newline \<notin> set ind" "newline \<notin> set ws" using nl by (simp_all add: tx)
  moreover have "indentNextBulletPoint m \<noteq> newline"
    by (simp add: indentNextBulletPoint_def newline_def)
  ultimately have nl': "newline \<notin> set (blockText b')"
    using indentUnit_no_newline [of s "tabWidth s"] by (simp add: tx')
  from unindent_indented_bullet_item
    [OF doc' cur' c' st' tx' u parts(1) marker parts(3,4) nl' cyc']
  have 2: "document (unindentText s') = pre' @ b'\<lparr>blockText := ind @ m # ws\<rparr> # post'"
    unfolding restored .
  have 3: "indentNextBulletPoint (CHR ''*'') = CHR ''-''"
    "indentNextBulletPoint (CHR ''-'') = CHR ''+''"
    "indentNextBulletPoint (CHR ''+'') = CHR ''*''"
    "unindentNextBulletPoint (CHR ''*'') = CHR ''+''"
    "unindentNextBulletPoint (CHR ''+'') = CHR ''-''"
    "unindentNextBulletPoint (CHR ''-'') = CHR ''*''"
    by (simp_all add: indentNextBulletPoint_def unindentNextBulletPoint_def)
  note 4 = indent_bullet_item_with_content [OF doc'' cur'' c'' st'' content]
  have 5: "let n = (if take 1 (blockText b'') = [CHR 0x09] then 1
                      else length (takeWhile (\<lambda>x. x = CHR '' '')
                                     (take (nat (tabWidth e)) (blockText b''))))
            in unindentText e
                 = e\<lparr>document := pre'' @ b''\<lparr>blockText := drop n (blockText b'')\<rparr> # post'',
                     textCursor := \<lparr>anchor = characterCount pre'' + (c'' - n),
                                    position = characterCount pre'' + (c'' - n)\<rparr>\<rparr>"
    unfolding Let_def
    using doc'' cur'' c'' refl content by (rule unindent_bullet_item_with_content)
  from 1 2 3 4 5 show ?thesis by (intro conjI)
qed

theorem bullet_cycle_round_trip_witness:
  "indentText (editorOn [line MarkdownStateOther ''ab'', line MarkdownStateBulletPointList ''  * '',
                         line MarkdownStateOther ''cd''] 7 7)
     = Inr (editorOn [line MarkdownStateOther ''ab'',
                      line MarkdownStateBulletPointList (CHR 0x09 # ''  - ''),
                      line MarkdownStateOther ''cd''] 8 8)
   \<and> map blockText (document (unindentText
         (editorOn [line MarkdownStateOther ''ab'',
                    line MarkdownStateBulletPointList (CHR 0x09 # ''  - ''),
                    line MarkdownStateOther ''cd''] 8 8)))
     = [''ab'', ''  * '', ''cd'']
   \<and> indentText (editorOn [line MarkdownStateBulletPointList ''  * foo''] 7 7)
     = Inr (editorOn [line MarkdownStateBulletPointList (''  * foo'' @ [CHR 0x09])] 8 8)
   \<and> unindentText (editorOn [line MarkdownStateBulletPointList ''  * foo''] 7 7)
     = editorOn [line MarkdownStateBulletPointList ''* foo''] 5 5"
proof -
  let ?s = "editorOn [line MarkdownStateOther ''ab'', line MarkdownStateBulletPointList ''  * '',
                      line MarkdownStateOther ''cd''] 7 7"
  let ?b = "line MarkdownStateBulletPointList ''  * ''"
  let ?s' = "editorOn [line MarkdownStateOther ''ab'',
                       line MarkdownStateBulletPointList (CHR 0x09 # ''  - ''),
                       line MarkdownStateOther ''cd''] 8 8"
  let ?b' = "line MarkdownStateBulletPointList (CHR 0x09 # ''  - '')"
  let ?e = "editorOn [line MarkdownStateBulletPointList ''  * foo''] 7 7"
  let ?b'' = "line MarkdownStateBulletPointList ''  * foo''"
  have doc: "document ?s = [line MarkdownStateOther ''ab''] @ ?b # [line MarkdownStateOther ''cd'']"
    by (simp add: editorOn_def setTextCursor_def newMarkdownEditor_def)
  have cur: "textCursor ?s = \<lparr>anchor = characterCount [line MarkdownStateOther ''ab''] + 4,
                               position = characterCount [line MarkdownStateOther ''ab''] + 4\<rparr>"
    by (simp add: editorOn_def setTextCursor_def line_def)
  have c: "4 \<le> length (blockText ?b)" by (simp add: line_def)
  have st: "userState ?b = MarkdownStateBulletPointList" by (simp add: line_def)
  have tx: "blockText ?b = ''  '' @ CHR ''*'' # '' ''" by (simp add: line_def)
  have parts: "\<forall>x\<in>set ''  ''. isSpace x" "isBulletChar (CHR ''*'')" "'' '' \<noteq> []"
    "\<forall>x\<in>set '' ''. isSpace x"
    by (simp_all add: isSpace_def isBulletChar_def)
  have nl: "newline \<notin> set (blockText ?b)" by (simp add: line_def newline_def)
  have cyc: "bulletPointCyclingEnabled ?s"
    by (simp add: editorOn_def setTextCursor_def newMarkdownEditor_def)
  have tw: "0 < tabWidth ?s"
    by (simp add: editorOn_def setTextCursor_def newMarkdownEditor_def)
  have doc': "document ?s' = [line MarkdownStateOther ''ab''] @ ?b' # [line MarkdownStateOther ''cd'']"
    by (simp add: editorOn_def setTextCursor_def newMarkdownEditor_def)
  have cur': "textCursor ?s' = \<lparr>anchor = characterCount [line MarkdownStateOther ''ab''] + 5,
                                 position = characterCount [line MarkdownStateOther ''ab''] + 5\<rparr>"
    by (simp add: editorOn_def setTextCursor_def line_def)
  have c': "5 \<le> length (blockText ?b')" by (simp add: line_def)
  have st': "userState ?b' = MarkdownStateBulletPointList" by (simp add: line_def)
  have tx': "blockText ?b' = indentUnit ?s (tabWidth ?s) @ ''  ''
                              @ indentNextBulletPoint (CHR ''*'') # '' ''"
    by (simp add: line_def indentUnit_def indentNextBulletPoint_def editorOn_def
        setTextCursor_def newMarkdownEditor_def)
  have cyc': "bulletPointCyclingEnabled ?s'"
    by (simp add: editorOn_def setTextCursor_def newMarkdownEditor_def)
  have tw': "tabWidth ?s' = tabWidth ?s"
    by (simp add: editorOn_def setTextCursor_def newMarkdownEditor_def)
  have doc'': "document ?e = [] @ ?b'' # []"
    by (simp add: editorOn_def setTextCursor_def newMarkdownEditor_def)
  have cur'': "textCursor ?e = \<lparr>anchor = characterCount [] + 7, position = characterCount [] + 7\<rparr>"
    by (simp add: editorOn_def setTextCursor_def)
  have c'': "7 \<le> length (blockText ?b'')" by (simp add: line_def)
  have st'': "userState ?b'' = MarkdownStateBulletPointList" by (simp add: line_def)
  have content: "\<not> exactMatch bulletListRegex (blockText ?b'')" by code_simp
  have task: "\<not> exactMatch taskListRegex ''  * foo''" by code_simp
  from bullet_cycle_round_trip [OF doc cur c st tx parts nl cyc tw doc' cur' c' st' tx' cyc' tw'
      doc'' cur'' c'' st'' content]
  show ?thesis
    by (simp add: line_def indentUnit_def indentNextBulletPoint_def task editorOn_def
        setTextCursor_def newMarkdownEditor_def)
qed

section \<open>Typing a paired character\<close>

text \<open>
  C7. With a selection inside one line, typing a character that is registered as an
  opening character inserts it before the selection and its closing character after the
  selection, and leaves selected exactly the text that was selected. Neither the flag of
  the character nor the general flag of auto-matching is asked for: the theorem has no
  hypothesis about them.
\<close>

theorem typing_opener_wraps_selection:
  assumes doc: "document s = pre @ b # post"
    and sel: "(anchor (textCursor s) = characterCount pre + c
                 \<and> position (textCursor s) = characterCount pre + d)
              \<or> (anchor (textCursor s) = characterCount pre + d
                 \<and> position (textCursor s) = characterCount pre + c)"
    and cd: "c < d" "d \<le> length (blockText b)"
    and reg: "hashContains (markupPairs s) ch"
    and nl: "ch \<noteq> newline" "hashValue (markupPairs s) nullChar ch \<noteq> newline"
  shows "keyPressEvent (typed ch) s =
           Inr (s\<lparr>document :=
                    pre @ b\<lparr>blockText :=
                               take c (blockText b) @ ch # take (d - c) (drop c (blockText b))
                               @ hashValue (markupPairs s) nullChar ch # drop d (blockText b)\<rparr>
                        # post,
                  textCursor := \<lparr>anchor = characterCount pre + c + 1,
                                 position = characterCount pre + d + 1\<rparr>\<rparr>)
         \<and> selectedText
               (pre @ b\<lparr>blockText :=
                          take c (blockText b) @ ch # take (d - c) (drop c (blockText b))
                          @ hashValue (markupPairs s) nullChar ch # drop d (blockText b)\<rparr>
                   # post)
               \<lparr>anchor = characterCount pre + c + 1, position = characterCount pre + d + 1\<rparr>
             = selectedText (document s) (textCursor s)"
proof -
  let ?t = "blockText b" and ?P = "characterCount pre"
  let ?last = "hashValue (markupPairs s) nullChar ch"
  let ?t1 = "take c ?t @ [ch] @ drop c ?t"
  let ?b1 = "b\<lparr>blockText := ?t1\<rparr>"
  let ?t2 = "take c ?t @ ch # take (d - c) (drop c ?t) @ ?last # drop d ?t"
  have hs: "hasSelection (textCursor s)"
    using sel cd by (auto simp: hasSelection_def)
  have ss: "selectionStart (textCursor s) = ?P + c" and se: "selectionEnd (textCursor s) = ?P + d"
    using sel cd by (auto simp: selectionStart_def selectionEnd_def)
  have same: "findBlock (document s) (selectionStart (textCursor s))
                = findBlock (document s) (selectionEnd (textCursor s))"
    using cd by (simp add: ss se doc findBlock_here)
  have c1: "setPosition (?P + c) MoveAnchor (textCursor s) = \<lparr>anchor = ?P + c, position = ?P + c\<rparr>"
    by (simp add: setPosition_def)
  let ?s1 = "s\<lparr>document := pre @ ?b1 # post,
               textCursor := adjustCursor (adjustInsert (?P + c) (length [ch])) (textCursor s)\<rparr>"
  have i1: "insertText [ch] \<lparr>anchor = ?P + c, position = ?P + c\<rparr> s
              = (\<lparr>anchor = ?P + c + length [ch], position = ?P + c + length [ch]\<rparr>, ?s1)"
    using cd nl(1) by (intro insertText_here [OF doc]) simp_all
  have se1: "selectionEnd (textCursor ?s1) = ?P + (d + 1)"
    using sel cd by (auto simp: selectionEnd_def adjustCursor_def adjustInsert_def)
  have c2: "setPosition (?P + (d + 1)) MoveAnchor
              \<lparr>anchor = ?P + c + length [ch], position = ?P + c + length [ch]\<rparr>
            = \<lparr>anchor = ?P + (d + 1), position = ?P + (d + 1)\<rparr>"
    by (simp add: setPosition_def)
  have t2: "take (d + 1) ?t1 @ [?last] @ drop (d + 1) ?t1 = ?t2"
    using cd by (simp add: take_Cons' drop_Cons' min_def take_drop)
  let ?s2 = "?s1\<lparr>document := pre @ b\<lparr>blockText := ?t2\<rparr> # post,
                 textCursor := adjustCursor (adjustInsert (?P + (d + 1)) (length [?last]))
                                 (textCursor ?s1)\<rparr>"
  have i2: "insertText [?last] \<lparr>anchor = ?P + (d + 1), position = ?P + (d + 1)\<rparr> ?s1
              = (\<lparr>anchor = ?P + (d + 1) + length [?last],
                  position = ?P + (d + 1) + length [?last]\<rparr>, ?s2)"
  proof -
    have "document ?s1 = pre @ ?b1 # post" by simp
    moreover have "d + 1 \<le> length (blockText ?b1)" using cd by simp
    moreover have "newline \<notin> set [?last]" using nl(2) by simp
    ultimately have "insertText [?last] \<lparr>anchor = ?P + (d + 1), position = ?P + (d + 1)\<rparr> ?s1
      = (\<lparr>anchor = ?P + (d + 1) + length [?last], position = ?P + (d + 1) + length [?last]\<rparr>,
         ?s1\<lparr>document := pre @ ?b1\<lparr>blockText := take (d + 1) (blockText ?b1) @ [?last]
                                               @ drop (d + 1) (blockText ?b1)\<rparr> # post,
            textCursor := adjustCursor (adjustInsert (?P + (d + 1)) (length [?last]))
                            (textCursor ?s1)\<rparr>)"
      by (rule insertText_here)
    then show ?thesis using t2 by simp
  qed
  have tc2: "textCursor ?s2 = \<lparr>anchor = anchor (textCursor ?s2), position = position (textCursor ?s2)\<rparr>"
    by simp
  have ss2: "selectionStart (textCursor ?s2) = ?P + c + 1"
    and se2: "selectionEnd (textCursor ?s2) - 1 = ?P + d + 1"
    using sel cd
    by (auto simp: selectionStart_def selectionEnd_def adjustCursor_def adjustInsert_def)
  have c5: "setPosition (selectionEnd (textCursor ?s2) - 1) KeepAnchor
              (setPosition (selectionStart (textCursor ?s2)) MoveAnchor (textCursor ?s2))
            = \<lparr>anchor = ?P + c + 1, position = ?P + d + 1\<rparr>"
    unfolding ss2 se2 by (simp add: setPosition_def)
  have ip: "insertPairedCharacters ch s =
      (True, ?s2\<lparr>textCursor := \<lparr>anchor = ?P + c + 1, position = ?P + d + 1\<rparr>\<rparr>)"
    unfolding insertPairedCharacters_def Let_def
    using reg hs same
    by (simp only: if_True ss c1 i1 prod.case se1 c2 i2 c5 simp_thms)
  have kp: "keyPressEvent (typed ch) s
        = Inr (?s2\<lparr>textCursor := \<lparr>anchor = ?P + c + 1, position = ?P + d + 1\<rparr>\<rparr>)"
    by (simp add: keyPressEvent_def typed_def endPair_with_selection [OF hs] ip)
  have st: "selectedText (pre @ b\<lparr>blockText := ?t2\<rparr> # post)
              \<lparr>anchor = ?P + c + 1, position = ?P + d + 1\<rparr>
            = take (d - c) (drop c ?t)"
    using cd findBlock_here [of "c + 1" "b\<lparr>blockText := ?t2\<rparr>" pre post]
    by (simp add: selectedText_def selectionStart_def selectionEnd_def Let_def min_def)
  have st0: "selectedText (document s) (textCursor s) = take (d - c) (drop c ?t)"
    using cd findBlock_here [of c b pre post]
    by (simp add: selectedText_def ss se doc Let_def)
  show ?thesis
    unfolding kp st st0 by simp
qed

theorem typing_opener_wraps_selection_witness:
  "keyPressEvent (typed (CHR ''(''))
     (setAutoMatchEnabledFor (CHR ''('') False
        (editorOn [line MarkdownStateOther ''xy'', line MarkdownStateOther ''hello word!''] 13 9))
   = Inr (setTextCursor \<lparr>anchor = 10, position = 14\<rparr>
           (setAutoMatchEnabledFor (CHR ''('') False
              (editorOn [line MarkdownStateOther ''xy'',
                         line MarkdownStateOther ''hello (word)!''] 13 9)))"
proof -
  let ?s = "setAutoMatchEnabledFor (CHR ''('') False
        (editorOn [line MarkdownStateOther ''xy'', line MarkdownStateOther ''hello word!''] 13 9)"
  let ?b = "line MarkdownStateOther ''hello word!''"
  have doc: "document ?s = [line MarkdownStateOther ''xy''] @ ?b # []"
    by (simp add: editorOn_def setTextCursor_def newMarkdownEditor_def setAutoMatchEnabledFor_def)
  have sel: "(anchor (textCursor ?s) = characterCount [line MarkdownStateOther ''xy''] + 6
                 \<and> position (textCursor ?s) = characterCount [line MarkdownStateOther ''xy''] + 10)
              \<or> (anchor (textCursor ?s) = characterCount [line MarkdownStateOther ''xy''] + 10
                 \<and> position (textCursor ?s) = characterCount [line MarkdownStateOther ''xy''] + 6)"
    by (simp add: editorOn_def setTextCursor_def line_def setAutoMatchEnabledFor_def)
  have cd: "(6::nat) < 10" "10 \<le> length (blockText ?b)" by (simp_all add: line_def)
  have reg: "hashContains (markupPairs ?s) (CHR ''('')" by code_simp
  have nl: "CHR ''('' \<noteq> newline" "hashValue (markupPairs ?s) nullChar (CHR ''('') \<noteq> newline"
    by code_simp+
  have v: "hashValue initialMarkupPairs nullChar (CHR ''('') = CHR '')''" by code_simp
  from typing_opener_wraps_selection [OF doc sel cd reg nl, THEN conjunct1]
  show ?thesis
    by (simp add: v line_def editorOn_def setTextCursor_def newMarkdownEditor_def
        setAutoMatchEnabledFor_def)
qed

text \<open>
  C6. The claim is that, with no selection and matching enabled, typing an opening
  character always inserts the pair. A key press first asks whether the character is a
  closing character that is already after the cursor, and then moves over it. The
  characters that are both (the quotes, \<open>*\<close>, \<open>_\<close> and the backtick) are therefore not
  inserted as a pair before one of their kind:
\<close>

theorem typing_self_paired_opener_before_itself:
  "hashContains (markupPairs (editorOn [line MarkdownStateOther ''a*b''] 1 1)) (CHR ''*'')
   \<and> hashValue (autoMatchFilter (editorOn [line MarkdownStateOther ''a*b''] 1 1)) False (CHR ''*'')
   \<and> autoMatchEnabled (editorOn [line MarkdownStateOther ''a*b''] 1 1)
   \<and> \<not> hasSelection (textCursor (editorOn [line MarkdownStateOther ''a*b''] 1 1))
   \<and> linesAfter (keyPressEvent (typed (CHR ''*'')) (editorOn [line MarkdownStateOther ''a*b''] 1 1))
       = [''a*b'']"
  by code_simp

text \<open>
  C6, as amended. With no selection and auto-matching enabled: typing a registered
  closing character whose opening character has its flag set, when the character after
  the cursor equals it, moves the cursor one position to the right and inserts nothing;
  and typing a registered opening character whose flag is set, when that first case
  does not apply, inserts the opening and the closing character and leaves the cursor
  between them.
\<close>

theorem typing_opener_or_closer:
  assumes doc: "document s = pre @ b # post"
    and cur: "textCursor s = \<lparr>anchor = characterCount pre + c, position = characterCount pre + c\<rparr>"
    and c: "c \<le> length (blockText b)"
    and en: "autoMatchEnabled s"
  shows "(ch \<in> set (hashValues (markupPairs s))
          \<and> hashValue (autoMatchFilter s) False (hashKey (markupPairs s) nullChar ch)
          \<and> c < length (blockText b) \<and> blockText b ! c = ch
          \<longrightarrow> keyPressEvent (typed ch) s =
                Inr (s\<lparr>textCursor := \<lparr>anchor = characterCount pre + c + 1,
                                        position = characterCount pre + c + 1\<rparr>\<rparr>))
       \<and> (hashContains (markupPairs s) ch \<and> hashValue (autoMatchFilter s) False ch
          \<and> ch \<noteq> newline \<and> hashValue (markupPairs s) nullChar ch \<noteq> newline
          \<and> \<not> (ch \<in> set (hashValues (markupPairs s))
                \<and> hashValue (autoMatchFilter s) False (hashKey (markupPairs s) nullChar ch)
                \<and> c < length (blockText b) \<and> blockText b ! c = ch)
          \<longrightarrow> keyPressEvent (typed ch) s =
                Inr (s\<lparr>document :=
                         pre @ b\<lparr>blockText :=
                                    take c (blockText b)
                                    @ ch # hashValue (markupPairs s) nullChar ch
                                    # drop c (blockText b)\<rparr> # post,
                       textCursor := \<lparr>anchor = characterCount pre + c + 1,
                                      position = characterCount pre + c + 1\<rparr>\<rparr>))"
proof (intro conjI impI)
  let ?t = "blockText b" and ?P = "characterCount pre"
  have nosel: "\<not> hasSelection (textCursor s)" by (simp add: cur hasSelection_def)
  have blk: "block (document s) (textCursor s) = b"
    and col: "positionInBlock (document s) (textCursor s) = c"
    by (simp_all add: doc cur block_here c)
  {
    assume a: "ch \<in> set (hashValues (markupPairs s))
          \<and> hashValue (autoMatchFilter s) False (hashKey (markupPairs s) nullChar ch)
          \<and> c < length ?t \<and> ?t ! c = ch"
    then have "c < length ?t" by simp
    then have mv: "movePosition (document s) NextCharacter MoveAnchor 1 (textCursor s)
                = \<lparr>anchor = ?P + c + 1, position = ?P + c + 1\<rparr>"
      using moveTarget_NextCharacter_here [of c b pre post]
      by (simp add: movePosition_def setPosition_def doc cur)
    have "handleEndPairCharacterTyped ch s
            = (True, s\<lparr>textCursor := \<lparr>anchor = ?P + c + 1, position = ?P + c + 1\<rparr>\<rparr>)"
      unfolding handleEndPairCharacterTyped_def Let_def blk col mv
      using a en nosel by simp
    then show "keyPressEvent (typed ch) s =
                Inr (s\<lparr>textCursor := \<lparr>anchor = ?P + c + 1, position = ?P + c + 1\<rparr>\<rparr>)"
      by (simp add: keyPressEvent_def typed_def)
  }
  {
    let ?last = "hashValue (markupPairs s) nullChar ch"
    assume a: "hashContains (markupPairs s) ch \<and> hashValue (autoMatchFilter s) False ch
          \<and> ch \<noteq> newline \<and> ?last \<noteq> newline
          \<and> \<not> (ch \<in> set (hashValues (markupPairs s))
                \<and> hashValue (autoMatchFilter s) False (hashKey (markupPairs s) nullChar ch)
                \<and> c < length ?t \<and> ?t ! c = ch)"
    have ne: "handleEndPairCharacterTyped ch s = (False, s)"
      unfolding handleEndPairCharacterTyped_def Let_def blk col
      using a by auto
    let ?b1 = "b\<lparr>blockText := take c ?t @ [ch] @ drop c ?t\<rparr>"
    let ?s1 = "s\<lparr>document := pre @ ?b1 # post,
                 textCursor := adjustCursor (adjustInsert (?P + c) (length [ch])) (textCursor s)\<rparr>"
    have i1: "insertText [ch] (textCursor s) s
                = (\<lparr>anchor = ?P + c + length [ch], position = ?P + c + length [ch]\<rparr>, ?s1)"
    proof -
      have "newline \<notin> set [ch]" using a by auto
      from insertText_here [OF doc c this] show ?thesis unfolding cur .
    qed
    let ?t2 = "take c ?t @ ch # ?last # drop c ?t"
    let ?s2 = "?s1\<lparr>document := pre @ b\<lparr>blockText := ?t2\<rparr> # post,
                   textCursor := adjustCursor (adjustInsert (?P + (c + 1)) (length [?last]))
                                   (textCursor ?s1)\<rparr>"
    have i2: "insertText [?last] \<lparr>anchor = ?P + c + length [ch], position = ?P + c + length [ch]\<rparr> ?s1
                = (\<lparr>anchor = ?P + (c + 1) + length [?last],
                    position = ?P + (c + 1) + length [?last]\<rparr>, ?s2)"
    proof -
      have "document ?s1 = pre @ ?b1 # post" by simp
      moreover have "c + 1 \<le> length (blockText ?b1)" using c by simp
      moreover have "newline \<notin> set [?last]" using a by auto
      ultimately have "insertText [?last] \<lparr>anchor = ?P + (c + 1), position = ?P + (c + 1)\<rparr> ?s1
        = (\<lparr>anchor = ?P + (c + 1) + length [?last], position = ?P + (c + 1) + length [?last]\<rparr>,
           ?s1\<lparr>document := pre @ ?b1\<lparr>blockText := take (c + 1) (blockText ?b1) @ [?last]
                                                 @ drop (c + 1) (blockText ?b1)\<rparr> # post,
              textCursor := adjustCursor (adjustInsert (?P + (c + 1)) (length [?last]))
                              (textCursor ?s1)\<rparr>)"
        by (rule insertText_here)
      moreover have "take (c + 1) (blockText ?b1) @ [?last] @ drop (c + 1) (blockText ?b1) = ?t2"
        using c by (simp add: take_Cons' drop_Cons')
      ultimately show ?thesis by (simp add: add.assoc)
    qed
    have mv: "movePosition (document ?s2) PreviousCharacter MoveAnchor 1
                \<lparr>anchor = ?P + (c + 1) + length [?last], position = ?P + (c + 1) + length [?last]\<rparr>
              = \<lparr>anchor = ?P + c + 1, position = ?P + c + 1\<rparr>"
      by (simp add: movePosition_def setPosition_def moveTarget_PreviousCharacter)
    have ip: "insertPairedCharacters ch s =
        (True, ?s2\<lparr>textCursor := \<lparr>anchor = ?P + c + 1, position = ?P + c + 1\<rparr>\<rparr>)"
      unfolding insertPairedCharacters_def Let_def
      using a en nosel
      by (simp only: if_True if_False i1 prod.case i2 mv simp_thms)
    show "keyPressEvent (typed ch) s =
                Inr (s\<lparr>document := pre @ b\<lparr>blockText := ?t2\<rparr> # post,
                       textCursor := \<lparr>anchor = ?P + c + 1, position = ?P + c + 1\<rparr>\<rparr>)"
      by (simp add: keyPressEvent_def typed_def ne ip)
  }
qed

theorem typing_opener_or_closer_witness:
  "linesAfter (keyPressEvent (typed (CHR ''('')) (editorOn [line MarkdownStateOther ''ab''] 1 1))
     = [''a()b'']
   \<and> keyPressEvent (typed (CHR '')'')) (editorOn [line MarkdownStateOther ''a()b''] 2 2)
     = Inr (editorOn [line MarkdownStateOther ''a()b''] 3 3)"
proof -
  let ?s1 = "editorOn [line MarkdownStateOther ''ab''] 1 1"
  let ?b1 = "line MarkdownStateOther ''ab''"
  have doc1: "document ?s1 = [] @ ?b1 # []"
    by (simp add: editorOn_def setTextCursor_def newMarkdownEditor_def)
  have cur1: "textCursor ?s1 = \<lparr>anchor = characterCount [] + 1, position = characterCount [] + 1\<rparr>"
    by (simp add: editorOn_def setTextCursor_def)
  have c1: "1 \<le> length (blockText ?b1)" by (simp add: line_def)
  have en1: "autoMatchEnabled ?s1"
    by (simp add: editorOn_def setTextCursor_def newMarkdownEditor_def)
  have h1: "hashContains (markupPairs ?s1) (CHR ''('')
          \<and> hashValue (autoMatchFilter ?s1) False (CHR ''('')
          \<and> CHR ''('' \<noteq> newline \<and> hashValue (markupPairs ?s1) nullChar (CHR ''('') \<noteq> newline
          \<and> \<not> (CHR ''('' \<in> set (hashValues (markupPairs ?s1))
                \<and> hashValue (autoMatchFilter ?s1) False
                      (hashKey (markupPairs ?s1) nullChar (CHR ''(''))
                \<and> 1 < length (blockText ?b1) \<and> blockText ?b1 ! 1 = CHR ''('')"
    by code_simp
  have v1: "hashValue initialMarkupPairs nullChar (CHR ''('') = CHR '')''" by code_simp
  have r1: "linesAfter (keyPressEvent (typed (CHR ''('')) ?s1) = [''a()b'']"
    using typing_opener_or_closer [OF doc1 cur1 c1 en1, of "CHR ''(''", THEN conjunct2, THEN mp, OF h1]
    by (simp add: linesAfter_def v1 line_def editorOn_def setTextCursor_def
        newMarkdownEditor_def)
  let ?s2 = "editorOn [line MarkdownStateOther ''a()b''] 2 2"
  let ?b2 = "line MarkdownStateOther ''a()b''"
  have doc2: "document ?s2 = [] @ ?b2 # []"
    by (simp add: editorOn_def setTextCursor_def newMarkdownEditor_def)
  have cur2: "textCursor ?s2 = \<lparr>anchor = characterCount [] + 2, position = characterCount [] + 2\<rparr>"
    by (simp add: editorOn_def setTextCursor_def)
  have c2: "2 \<le> length (blockText ?b2)" by (simp add: line_def)
  have en2: "autoMatchEnabled ?s2"
    by (simp add: editorOn_def setTextCursor_def newMarkdownEditor_def)
  have h2: "CHR '')'' \<in> set (hashValues (markupPairs ?s2))
          \<and> hashValue (autoMatchFilter ?s2) False (hashKey (markupPairs ?s2) nullChar (CHR '')''))
          \<and> 2 < length (blockText ?b2) \<and> blockText ?b2 ! 2 = CHR '')''"
    by code_simp
  have r2: "keyPressEvent (typed (CHR '')'')) ?s2 = Inr (editorOn [line MarkdownStateOther ''a()b''] 3 3)"
    using typing_opener_or_closer [OF doc2 cur2 c2 en2, of "CHR '')''", THEN conjunct1, THEN mp, OF h2]
    by (simp add: editorOn_def setTextCursor_def)
  from r1 r2 show ?thesis by simp
qed

section \<open>What the decisions depend on\<close>

lemma fst_backtrack: "fst (backtrack k s) \<longleftrightarrow> 0 \<le> k"
  by (simp add: backtrack_def Let_def)

lemma autoInsertion_local:
  assumes "block (document s) (textCursor s) = block (document s') (textCursor s')"
    and "positionInBlock (document s) (textCursor s) = positionInBlock (document s') (textCursor s')"
  shows "autoInsertion s = autoInsertion s'"
proof -
  have gi: "getPriorIndentation s = getPriorIndentation s'"
    by (simp add: getPriorIndentation_def assms(1))
  have gp: "\<And>rx. getPriorMarkdownBlockItemStart s rx = getPriorMarkdownBlockItemStart s' rx"
    by (simp add: getPriorMarkdownBlockItemStart_def assms(1))
  show ?thesis
    unfolding autoInsertion_def Let_def gi gp assms ..
qed

lemma handled_local:
  assumes "block (document s) (textCursor s) = block (document s') (textCursor s')"
    and "positionInBlock (document s) (textCursor s) = positionInBlock (document s') (textCursor s')"
    and "hasSelection (textCursor s) = hasSelection (textCursor s')"
    and "autoMatchEnabled s = autoMatchEnabled s'" and "markupPairs s = markupPairs s'"
  shows "fst (handleBackspaceKey s) = fst (handleBackspaceKey s')"
proof (cases "userState (block (document s') (textCursor s'))")
  case MarkdownStateNumberedList
  with assms show ?thesis by (simp add: handleBackspaceKey_def Let_def fst_backtrack)
next
  case MarkdownStateBulletPointList
  with assms show ?thesis by (simp add: handleBackspaceKey_def Let_def fst_backtrack)
next
  case MarkdownStateBlockquote
  with assms show ?thesis by (simp add: handleBackspaceKey_def Let_def fst_backtrack)
next
  case MarkdownStateOther
  with assms show ?thesis by (simp add: handleBackspaceKey_def Let_def fst_backtrack)
qed

text \<open>
  C1. The claim is that two editors whose current lines have the same text take the same
  decision. Every engine first switches on the state that the highlighter stored with
  the block, and only then matches the text. Return at the end of \<open>1. x\<close> continues
  the list in the numbered-list state and does not in another state; Backspace between
  the two characters of \<open>()\<close> removes the pair in an ordinary state and is not handled
  in the bullet-list state. With a selection, unindenting takes its decision on the
  last block of the selection, which need not be the block of the cursor: with the
  cursor on the first of two lines and the anchor on the second, the marker of the
  second line is cycled or not with the state of the second line, while the block of
  the cursor is the same:
\<close>

theorem same_text_different_state:
  "blockText (block (document (editorOn [line MarkdownStateNumberedList ''1. x''] 4 4))
                    (textCursor (editorOn [line MarkdownStateNumberedList ''1. x''] 4 4)))
     = blockText (block (document (editorOn [line MarkdownStateOther ''1. x''] 4 4))
                        (textCursor (editorOn [line MarkdownStateOther ''1. x''] 4 4)))
   \<and> autoInsertion (editorOn [line MarkdownStateNumberedList ''1. x''] 4 4) = (''2. '', False)
   \<and> autoInsertion (editorOn [line MarkdownStateOther ''1. x''] 4 4) = ([], False)
   \<and> fst (handleBackspaceKey (editorOn [line MarkdownStateOther ''()''] 1 1))
   \<and> \<not> fst (handleBackspaceKey (editorOn [line MarkdownStateBulletPointList ''()''] 1 1))
   \<and> block (document (editorOn [line MarkdownStateBulletPointList ''- '',
                                  line MarkdownStateBulletPointList ''- ''] 3 0))
           (textCursor (editorOn [line MarkdownStateBulletPointList ''- '',
                                  line MarkdownStateBulletPointList ''- ''] 3 0))
     = block (document (editorOn [line MarkdownStateBulletPointList ''- '',
                                  line MarkdownStateOther ''- ''] 3 0))
             (textCursor (editorOn [line MarkdownStateBulletPointList ''- '',
                                    line MarkdownStateOther ''- ''] 3 0))
   \<and> map blockText (document (unindentText
         (editorOn [line MarkdownStateBulletPointList ''- '',
                    line MarkdownStateBulletPointList ''- ''] 3 0))) = [''- '', ''* '']
   \<and> map blockText (document (unindentText
         (editorOn [line MarkdownStateBulletPointList ''- '',
                    line MarkdownStateOther ''- ''] 3 0))) = [''- '', ''- '']"
  by code_simp

text \<open>
  C1, as amended. Two editors whose current blocks are equal, in text and in stored
  state, with the cursor at the same column, both with or both without a selection, and
  with the same settings (the table of pairs, the auto-matching flag, the cycling flag,
  the tab width and the use of spaces for tabs), take the same decisions: Return
  computes the same text to insert and the same end-of-list flag, and Backspace is
  handled in both or in neither. When there is no selection, indenting fails in both, or
  turns the current line into the same new line in both, with the cursor at the same
  column, and changes no other line; and unindenting turns the current line into the
  same new line in both, with the cursor at the same column, and changes no other line.
  No other line of the document is read.
\<close>

theorem decision_depends_on_current_block:
  assumes doc: "document s = pre @ b # post"
    and pos: "position (textCursor s) = characterCount pre + c"
    and doc': "document s' = pre' @ b # post'"
    and pos': "position (textCursor s') = characterCount pre' + c"
    and sel: "hasSelection (textCursor s) = hasSelection (textCursor s')"
    and c: "c \<le> length (blockText b)" and nl: "newline \<notin> set (blockText b)"
    and settings: "autoMatchEnabled s = autoMatchEnabled s'" "markupPairs s = markupPairs s'"
      "bulletPointCyclingEnabled s = bulletPointCyclingEnabled s'"
      "insertSpacesForTabs s = insertSpacesForTabs s'" "tabWidth s = tabWidth s'"
  shows "autoInsertion s = autoInsertion s'
         \<and> fst (handleBackspaceKey s) = fst (handleBackspaceKey s')
         \<and> (\<not> hasSelection (textCursor s) \<longrightarrow>
            ((\<exists>f. indentText s = Inl f \<and> indentText s' = Inl f)
            \<or> (\<exists>t k. indentText s
                        = Inr (s\<lparr>document := pre @ b\<lparr>blockText := t\<rparr> # post,
                                textCursor := \<lparr>anchor = characterCount pre + k,
                                               position = characterCount pre + k\<rparr>\<rparr>)
                    \<and> indentText s'
                        = Inr (s'\<lparr>document := pre' @ b\<lparr>blockText := t\<rparr> # post',
                                 textCursor := \<lparr>anchor = characterCount pre' + k,
                                                position = characterCount pre' + k\<rparr>\<rparr>)))
         \<and> (\<exists>t k. unindentText s
                      = s\<lparr>document := pre @ b\<lparr>blockText := t\<rparr> # post,
                          textCursor := \<lparr>anchor = characterCount pre + k,
                                         position = characterCount pre + k\<rparr>\<rparr>
                  \<and> unindentText s'
                      = s'\<lparr>document := pre' @ b\<lparr>blockText := t\<rparr> # post',
                           textCursor := \<lparr>anchor = characterCount pre' + k,
                                          position = characterCount pre' + k\<rparr>\<rparr>))"
proof -
  have tc: "textCursor s = \<lparr>anchor = anchor (textCursor s), position = characterCount pre + c\<rparr>"
    "textCursor s' = \<lparr>anchor = anchor (textCursor s'), position = characterCount pre' + c\<rparr>"
    using pos pos' by simp_all
  have blk: "block (document s) (textCursor s) = block (document s') (textCursor s')"
    using block_here(1) [OF c, of pre post "anchor (textCursor s)"]
      block_here(1) [OF c, of pre' post' "anchor (textCursor s')"]
    unfolding doc doc' tc [symmetric] by simp
  have col: "positionInBlock (document s) (textCursor s)
               = positionInBlock (document s') (textCursor s')"
    using block_here(2) [OF c, of pre post "anchor (textCursor s)"]
      block_here(2) [OF c, of pre' post' "anchor (textCursor s')"]
    unfolding doc doc' tc [symmetric] by simp
  have 1: "autoInsertion s = autoInsertion s'"
    using blk col by (rule autoInsertion_local)
  have 2: "fst (handleBackspaceKey s) = fst (handleBackspaceKey s')"
    using blk col sel settings(1,2) by (rule handled_local)
  have 3: "(\<exists>f. indentText s = Inl f \<and> indentText s' = Inl f)
            \<or> (\<exists>t k. indentText s
                        = Inr (s\<lparr>document := pre @ b\<lparr>blockText := t\<rparr> # post,
                                textCursor := \<lparr>anchor = characterCount pre + k,
                                               position = characterCount pre + k\<rparr>\<rparr>)
                    \<and> indentText s'
                        = Inr (s'\<lparr>document := pre' @ b\<lparr>blockText := t\<rparr> # post',
                                 textCursor := \<lparr>anchor = characterCount pre' + k,
                                                position = characterCount pre' + k\<rparr>\<rparr>))"
    and 4: "\<exists>t k. unindentText s
                      = s\<lparr>document := pre @ b\<lparr>blockText := t\<rparr> # post,
                          textCursor := \<lparr>anchor = characterCount pre + k,
                                         position = characterCount pre + k\<rparr>\<rparr>
                  \<and> unindentText s'
                      = s'\<lparr>document := pre' @ b\<lparr>blockText := t\<rparr> # post',
                           textCursor := \<lparr>anchor = characterCount pre' + k,
                                          position = characterCount pre' + k\<rparr>\<rparr>"
    if nosel: "\<not> hasSelection (textCursor s)"
  proof -
    have cur: "textCursor s = \<lparr>anchor = characterCount pre + c, position = characterCount pre + c\<rparr>"
      using nosel pos by (simp add: hasSelection_def)
    have cur': "textCursor s' = \<lparr>anchor = characterCount pre' + c,
                                   position = characterCount pre' + c\<rparr>"
      using nosel sel pos' by (simp add: hasSelection_def)
    from indentText_here [OF c nl, of "insertSpacesForTabs s" "tabWidth s"
        "bulletPointCyclingEnabled s"]
    obtain r where r: "\<And>e pre post.
             document e = pre @ b # post
             \<and> textCursor e = \<lparr>anchor = characterCount pre + c, position = characterCount pre + c\<rparr>
             \<and> insertSpacesForTabs e = insertSpacesForTabs s \<and> tabWidth e = tabWidth s
             \<and> bulletPointCyclingEnabled e = bulletPointCyclingEnabled s
             \<Longrightarrow> indentText e =
                   (case r of
                      Inl f \<Rightarrow> Inl f
                    | Inr (t, k) \<Rightarrow>
                        Inr (e\<lparr>document := pre @ b\<lparr>blockText := t\<rparr> # post,
                              textCursor := \<lparr>anchor = characterCount pre + k,
                                             position = characterCount pre + k\<rparr>\<rparr>))"
      by blast
    show "(\<exists>f. indentText s = Inl f \<and> indentText s' = Inl f)
              \<or> (\<exists>t k. indentText s
                          = Inr (s\<lparr>document := pre @ b\<lparr>blockText := t\<rparr> # post,
                                  textCursor := \<lparr>anchor = characterCount pre + k,
                                                 position = characterCount pre + k\<rparr>\<rparr>)
                      \<and> indentText s'
                          = Inr (s'\<lparr>document := pre' @ b\<lparr>blockText := t\<rparr> # post',
                                   textCursor := \<lparr>anchor = characterCount pre' + k,
                                                  position = characterCount pre' + k\<rparr>\<rparr>))"
    proof (cases r)
      case (Inl f)
      have "indentText s = Inl f" using r [of s pre post] doc cur by (simp add: Inl)
      moreover have "indentText s' = Inl f"
        using r [of s' pre' post'] doc' cur' settings by (simp add: Inl)
      ultimately show ?thesis by blast
    next
      case (Inr tk)
      obtain t k where tk: "tk = (t, k)" by (cases tk)
      have "indentText s = Inr (s\<lparr>document := pre @ b\<lparr>blockText := t\<rparr> # post,
                                  textCursor := \<lparr>anchor = characterCount pre + k,
                                                 position = characterCount pre + k\<rparr>\<rparr>)"
        using r [of s pre post] doc cur by (simp add: Inr tk)
      moreover have "indentText s' = Inr (s'\<lparr>document := pre' @ b\<lparr>blockText := t\<rparr> # post',
                                   textCursor := \<lparr>anchor = characterCount pre' + k,
                                                  position = characterCount pre' + k\<rparr>\<rparr>)"
        using r [of s' pre' post'] doc' cur' settings by (simp add: Inr tk)
      ultimately show ?thesis by blast
    qed
    from unindentText_here [OF c nl, of "tabWidth s" "bulletPointCyclingEnabled s"]
    obtain t k where u: "\<And>e pre post.
             document e = pre @ b # post
             \<and> textCursor e = \<lparr>anchor = characterCount pre + c, position = characterCount pre + c\<rparr>
             \<and> tabWidth e = tabWidth s
             \<and> bulletPointCyclingEnabled e = bulletPointCyclingEnabled s
             \<Longrightarrow> unindentText e =
                   e\<lparr>document := pre @ b\<lparr>blockText := t\<rparr> # post,
                     textCursor := \<lparr>anchor = characterCount pre + k,
                                    position = characterCount pre + k\<rparr>\<rparr>"
      by blast
    have "unindentText s = s\<lparr>document := pre @ b\<lparr>blockText := t\<rparr> # post,
                            textCursor := \<lparr>anchor = characterCount pre + k,
                                           position = characterCount pre + k\<rparr>\<rparr>"
      using u [of s pre post] doc cur by simp
    moreover have "unindentText s' = s'\<lparr>document := pre' @ b\<lparr>blockText := t\<rparr> # post',
                             textCursor := \<lparr>anchor = characterCount pre' + k,
                                            position = characterCount pre' + k\<rparr>\<rparr>"
      using u [of s' pre' post'] doc' cur' settings by simp
    ultimately show "\<exists>t k. unindentText s
                        = s\<lparr>document := pre @ b\<lparr>blockText := t\<rparr> # post,
                            textCursor := \<lparr>anchor = characterCount pre + k,
                                           position = characterCount pre + k\<rparr>\<rparr>
                    \<and> unindentText s'
                        = s'\<lparr>document := pre' @ b\<lparr>blockText := t\<rparr> # post',
                             textCursor := \<lparr>anchor = characterCount pre' + k,
                                            position = characterCount pre' + k\<rparr>\<rparr>"
      by blast
  qed
  from 1 2 3 4 show ?thesis by blast
qed

theorem decision_depends_on_current_block_witness:
  "autoInsertion (editorOn [line MarkdownStateOther ''ab'',
                            line MarkdownStateBulletPointList ''* ''] 5 5)
     = autoInsertion (editorOn [line MarkdownStateBulletPointList ''* '',
                                line MarkdownStateNumberedList ''1. x''] 2 2)
   \<and> fst (handleBackspaceKey (editorOn [line MarkdownStateOther ''ab'',
                                        line MarkdownStateBulletPointList ''* ''] 5 5))
     = fst (handleBackspaceKey (editorOn [line MarkdownStateBulletPointList ''* '',
                                          line MarkdownStateNumberedList ''1. x''] 2 2))
   \<and> ((\<exists>f. indentText (editorOn [line MarkdownStateOther ''ab'',
                                  line MarkdownStateBulletPointList ''* ''] 5 5) = Inl f
           \<and> indentText (editorOn [line MarkdownStateBulletPointList ''* '',
                                    line MarkdownStateNumberedList ''1. x''] 2 2) = Inl f)
      \<or> (\<exists>t k. indentText (editorOn [line MarkdownStateOther ''ab'',
                                      line MarkdownStateBulletPointList ''* ''] 5 5)
                  = Inr ((editorOn [line MarkdownStateOther ''ab'',
                                    line MarkdownStateBulletPointList ''* ''] 5 5)
                           \<lparr>document := [line MarkdownStateOther ''ab'']
                                        @ (line MarkdownStateBulletPointList ''* '')
                                            \<lparr>blockText := t\<rparr> # [],
                            textCursor :=
                              \<lparr>anchor = characterCount [line MarkdownStateOther ''ab''] + k,
                               position = characterCount [line MarkdownStateOther ''ab''] + k\<rparr>\<rparr>)
              \<and> indentText (editorOn [line MarkdownStateBulletPointList ''* '',
                                       line MarkdownStateNumberedList ''1. x''] 2 2)
                  = Inr ((editorOn [line MarkdownStateBulletPointList ''* '',
                                    line MarkdownStateNumberedList ''1. x''] 2 2)
                           \<lparr>document := [] @ (line MarkdownStateBulletPointList ''* '')
                                                \<lparr>blockText := t\<rparr>
                                             # [line MarkdownStateNumberedList ''1. x''],
                            textCursor := \<lparr>anchor = characterCount [] + k,
                                           position = characterCount [] + k\<rparr>\<rparr>)))
   \<and> (\<exists>t k. unindentText (editorOn [line MarkdownStateOther ''ab'',
                                     line MarkdownStateBulletPointList ''* ''] 5 5)
               = (editorOn [line MarkdownStateOther ''ab'',
                            line MarkdownStateBulletPointList ''* ''] 5 5)
                   \<lparr>document := [line MarkdownStateOther ''ab'']
                                @ (line MarkdownStateBulletPointList ''* '')\<lparr>blockText := t\<rparr> # [],
                    textCursor :=
                      \<lparr>anchor = characterCount [line MarkdownStateOther ''ab''] + k,
                       position = characterCount [line MarkdownStateOther ''ab''] + k\<rparr>\<rparr>
           \<and> unindentText (editorOn [line MarkdownStateBulletPointList ''* '',
                                      line MarkdownStateNumberedList ''1. x''] 2 2)
               = (editorOn [line MarkdownStateBulletPointList ''* '',
                            line MarkdownStateNumberedList ''1. x''] 2 2)
                   \<lparr>document := [] @ (line MarkdownStateBulletPointList ''* '')\<lparr>blockText := t\<rparr>
                                     # [line MarkdownStateNumberedList ''1. x''],
                    textCursor := \<lparr>anchor = characterCount [] + k,
                                   position = characterCount [] + k\<rparr>\<rparr>)"
proof -
  let ?a = "line MarkdownStateOther ''ab''"
  let ?b = "line MarkdownStateBulletPointList ''* ''"
  let ?n = "line MarkdownStateNumberedList ''1. x''"
  let ?s = "editorOn [?a, ?b] 5 5"
  let ?s' = "editorOn [?b, ?n] 2 2"
  have 1: "document ?s = [?a] @ ?b # []"
    by (simp add: editorOn_def setTextCursor_def newMarkdownEditor_def)
  have 2: "position (textCursor ?s) = characterCount [?a] + 2"
    by (simp add: editorOn_def setTextCursor_def line_def)
  have 3: "document ?s' = [] @ ?b # [?n]"
    by (simp add: editorOn_def setTextCursor_def newMarkdownEditor_def)
  have 4: "position (textCursor ?s') = characterCount [] + 2"
    by (simp add: editorOn_def setTextCursor_def)
  have nosel: "\<not> hasSelection (textCursor ?s)"
    by (simp add: editorOn_def setTextCursor_def hasSelection_def)
  have sel: "hasSelection (textCursor ?s) = hasSelection (textCursor ?s')"
    by (simp add: editorOn_def setTextCursor_def hasSelection_def)
  have 5: "2 \<le> length (blockText ?b)" by (simp add: line_def)
  have 6: "newline \<notin> set (blockText ?b)" by (simp add: line_def newline_def)
  have 7: "autoMatchEnabled ?s = autoMatchEnabled ?s'" "markupPairs ?s = markupPairs ?s'"
    "bulletPointCyclingEnabled ?s = bulletPointCyclingEnabled ?s'"
    "insertSpacesForTabs ?s = insertSpacesForTabs ?s'" "tabWidth ?s = tabWidth ?s'"
    by (simp_all add: editorOn_def setTextCursor_def newMarkdownEditor_def)
  from decision_depends_on_current_block [OF 1 2 3 4 sel 5 6 7] nosel show ?thesis
    by (simp only: simp_thms)
qed

section \<open>Hemingway mode\<close>

text \<open>
  C10. When Hemingway mode is enabled, a press of Backspace or of Delete leaves the whole
  editor as it is, the document with every line and the cursor, whatever the cursor
  position and the selection are: the event is consumed and nothing is edited.
\<close>

theorem hemingway_keeps_document:
  assumes "hemingwayModeEnabled s"
    and "key e = Key_Backspace \<or> key e = Key_Delete"
  shows "keyPressEvent e s = Inr s"
  using assms by (auto simp: keyPressEvent_def)

theorem hemingway_keeps_document_witness:
  "hemingwayModeEnabled
     (setHemingWayModeEnabled True (editorOn [line MarkdownStateOther ''a()b''] 1 2))
   \<and> key (pressed Key_Backspace) = Key_Backspace
   \<and> keyPressEvent (pressed Key_Backspace)
        (setHemingWayModeEnabled True (editorOn [line MarkdownStateOther ''a()b''] 1 2))
      = Inr (setHemingWayModeEnabled True (editorOn [line MarkdownStateOther ''a()b''] 1 2))"
proof -
  have h: "hemingwayModeEnabled
             (setHemingWayModeEnabled True (editorOn [line MarkdownStateOther ''a()b''] 1 2))"
    by (simp add: setHemingWayModeEnabled_def)
  have k: "key (pressed Key_Backspace) = Key_Backspace"
    by (simp add: pressed_def)
  from hemingway_keeps_document [OF h, of "pressed Key_Backspace"] h k
  show ?thesis by simp
qed

section \<open>The table of pairs\<close>

text \<open>
  C8. The claim is that no editing operation adds an entry to the table of pairs. On a
  line in an ordinary paragraph, Backspace after a character that is no opening
  character looks the character up with \<open>operator[]\<close>, and that inserts the
  character into the table, paired with \<open>QChar()\<close>: after Backspace at column 1 of the
  line \<open>ab\<close> the table has a tenth entry, for \<open>a\<close>.
\<close>

theorem backspace_adds_markup_pair:
  "markupPairs (snd (handleBackspaceKey (editorOn [line MarkdownStateOther ''ab''] 1 1)))
     = initialMarkupPairs @ [(CHR ''a'', nullChar)]"
  by code_simp

section \<open>The read at the cursor in the pair branch of Backspace\<close>

text \<open>
  C9. The claim is that the read \<open>blockText[cursor.positionInBlock()]\<close> is always inside
  the text. With the cursor at the end of the line \<open>ab\<close>, no selection and matching
  enabled, the branch is taken and the index read is 2, the length of the text; the
  read yields \<open>QChar()\<close>, which is also what the lookup of \<open>b\<close> in the table yields, so
  that the key is taken for the deletion of a pair.
\<close>

theorem pair_collapse_read_out_of_bounds:
  "pairCollapseRead (editorOn [line MarkdownStateOther ''ab''] 2 2) = Some (''ab'', 2)
   \<and> \<not> inBounds ''ab'' 2
   \<and> fst (handleBackspaceKey (editorOn [line MarkdownStateOther ''ab''] 2 2))"
  by code_simp

end
